theory Spec2Isabelle
  imports Complex_Main
begin

section \<open>Numbers, rectangles and constants\<close>

text \<open>
  The game computes with JavaScript numbers, which are IEEE 754 doubles; a number is
  modelled as a \<^typ>\<open>real\<close>. The pixel counts of the game (the width and height of the
  canvas, the edges of the pipes, the constants of the level) are integers far below
  \<open>2\<^sup>5\<^sup>3\<close>, on which the sums and differences of doubles are exact, and they are
  computed with the exact arithmetic of the reals. The position and the velocity of the
  capy are computed with the exact arithmetic as well. The position of a gap is a
  fraction, the random number times the height range: the three operations that
  compute it round, and they are modelled with the rounding \<open>dbl\<close> below. The score,
  which only ever counts up by one, is a \<^typ>\<open>nat\<close>.

  \<open>dbl x\<close> is the double nearest to \<open>x\<close>, ties going to the even significand: a
  double has a significand of 53 bits, so around \<open>x\<close> the doubles are the multiples of
  \<open>2\<close> to the power \<open>\<lfloor>log\<^sub>2 \<bar>x\<bar>\<rfloor> - 52\<close>, and below \<open>2\<close> to the power \<open>-1022\<close>
  (the subnormal numbers) the multiples of \<open>2\<close> to the power \<open>-1074\<close>. Numbers beyond
  the largest double, about \<open>1.8 \<times> 10\<^sup>3\<^sup>0\<^sup>8\<close>, where JavaScript gives
  \<^verbatim>\<open>Infinity\<close>, are outside the model.

  A sub-pipe and the hitbox of the capy are plain objects with the four fields
  \<^verbatim>\<open>left\<close>, \<^verbatim>\<open>right\<close>, \<^verbatim>\<open>top\<close>, \<^verbatim>\<open>bottom\<close>
  (the field \<^verbatim>\<open>top\<close> is called \<open>top_edge\<close> here, the name \<open>top\<close> being
  taken by the order theory of HOL).
\<close>

definition round_even :: "real \<Rightarrow> int" where
  "round_even y =
     (let f = \<lfloor>y\<rfloor>
      in if y - of_int f < 1 / 2 then f
         else if 1 / 2 < y - of_int f then f + 1
         else if even f then f else f + 1)"

definition dbl :: "real \<Rightarrow> real" where
  "dbl x =
     (let e = max \<lfloor>log 2 \<bar>x\<bar>\<rfloor> (- 1022);
          u = 2 powr (of_int e - 52)
      in sgn x * (u * of_int (round_even (\<bar>x\<bar> / u))))"

record Rect =
  left :: real
  right :: real
  top_edge :: real
  bottom :: real

record Dimensions =
  width :: real
  height :: real

text \<open>The hash \<^verbatim>\<open>CONSTANTS\<close> of the level.\<close>

definition HORIZONTAL_PIPE_SPACING :: real where "HORIZONTAL_PIPE_SPACING = 220"
definition PIPE_GAP :: real where "PIPE_GAP = 150"
definition WARMUP_SECONDS :: real where "WARMUP_SECONDS = 1"
definition EDGE_BUFFER :: real where "EDGE_BUFFER = 50"
definition PIPE_WIDTH :: real where "PIPE_WIDTH = 50"
definition PIPE_SPEED :: real where "PIPE_SPEED = 2"
definition BACKGROUND_SPEED :: real where "BACKGROUND_SPEED = 1"

text \<open>The hash \<^verbatim>\<open>CONST\<close> of the capy.\<close>

definition CAPY_WIDTH :: real where "CAPY_WIDTH = 45"
definition CAPY_HEIGHT :: real where "CAPY_HEIGHT = 33"
definition GRAVITY :: real where "GRAVITY = 0.4"
definition FLAP_SPEED :: real where "FLAP_SPEED = 7.5"
definition TERMINAL_VEL :: real where "TERMINAL_VEL = 12"
definition ANIMATED_FLAP_SPEED :: nat where "ANIMATED_FLAP_SPEED = 5"

section \<open>The random source and the errors of the host language\<close>

text \<open>
  \<^verbatim>\<open>Math.random()\<close> is a global generator. It is modelled by the sequence \<open>rnd\<close> of
  the numbers it will return and a cursor, the number of calls made so far: a call
  returns \<open>rnd k\<close> and moves the cursor on. Every function that may draw a number takes
  the cursor and returns the new one; a function that takes no cursor draws nothing.
\<close>

definition Math_random :: "(nat \<Rightarrow> real) \<Rightarrow> nat \<Rightarrow> real \<times> nat" where
  "Math_random rnd k = (rnd k, Suc k)"

text \<open>
  Reading a property of \<^verbatim>\<open>undefined\<close> (an array element that is not there) throws a
  \<^verbatim>\<open>TypeError\<close>; a chain of restarts that never ends is cut off by the fuel of the
  game loop below.
\<close>

datatype error = TypeError

section \<open>Level\<close>

record PipePair =
  topPipe :: Rect
  bottomPipe :: Rect
  passed :: bool

text \<open>
  The background strips are kept by their position only (the image is not part of the
  model).
\<close>

record Level =
  dimensions :: Dimensions
  pipes :: "PipePair list"
  backgroundQueue :: "real list"
  appendBackground :: bool

text \<open>
  \<^verbatim>\<open>randomPipe(distance)\<close>: one call of the random source. The product with the
  random number and the two sums that follow it are rounded to doubles.
\<close>

definition randomPipe :: "(nat \<Rightarrow> real) \<Rightarrow> Dimensions \<Rightarrow> real \<Rightarrow> nat \<Rightarrow> PipePair \<times> nat" where
  "randomPipe rnd dims distance k =
     (let heightRange = height dims - (2 * EDGE_BUFFER) - PIPE_GAP;
          (r, k') = Math_random rnd k;
          topOfGap = dbl (dbl (r * heightRange) + EDGE_BUFFER);
          pipe = \<lparr> topPipe = \<lparr> left = distance,
                                right = PIPE_WIDTH + distance,
                                top_edge = 0,
                                bottom = topOfGap \<rparr>,
                   bottomPipe = \<lparr> left = distance,
                                   right = PIPE_WIDTH + distance,
                                   top_edge = dbl (topOfGap + PIPE_GAP),
                                   bottom = height dims \<rparr>,
                   passed = False \<rparr>
      in (pipe, k'))"

text \<open>
  \<^verbatim>\<open>makeBackground()\<close> reads and clears the flag \<^verbatim>\<open>appendBackground\<close>; in the
  constructor the flag is still \<^verbatim>\<open>undefined\<close>, which is falsy.
\<close>

definition makeBackground :: "bool \<Rightarrow> real \<times> bool" where
  "makeBackground appendBg =
     (if appendBg then (480, False) else (480 - 1920, appendBg))"

text \<open>
  The constructor: the three pairs are generated front to back, in the order of the
  array literal, then the first background strip.
\<close>

definition Level_constructor :: "(nat \<Rightarrow> real) \<Rightarrow> Dimensions \<Rightarrow> nat \<Rightarrow> Level \<times> nat" where
  "Level_constructor rnd dims k =
     (let firstPipeDistance = width dims + (WARMUP_SECONDS * 60 * PIPE_SPEED);
          (p0, k0) = randomPipe rnd dims firstPipeDistance k;
          (p1, k1) = randomPipe rnd dims (firstPipeDistance + HORIZONTAL_PIPE_SPACING) k0;
          (p2, k2) = randomPipe rnd dims (firstPipeDistance + (2 * HORIZONTAL_PIPE_SPACING)) k1;
          (backgroundFirst, _) = makeBackground False
      in (\<lparr> dimensions = dims,
             pipes = [p0, p1, p2],
             backgroundQueue = [backgroundFirst],
             appendBackground = True \<rparr>, k2))"

text \<open>
  \<^verbatim>\<open>eachPipe(callback)\<close> runs the callback on every pair, front to back. A callback
  may change the pair it is given and the variables it closes over: it is a function
  from the pair and that outer state to the new pair and the new outer state.
\<close>

fun forEach :: "('a \<Rightarrow> 's \<Rightarrow> 'a \<times> 's) \<Rightarrow> 'a list \<Rightarrow> 's \<Rightarrow> 'a list \<times> 's" where
  "forEach callback [] s = ([], s)"
| "forEach callback (p # ps) s =
     (let (p', s') = callback p s;
          (ps', s'') = forEach callback ps s'
      in (p' # ps', s''))"

definition eachPipe :: "(PipePair \<Rightarrow> 's \<Rightarrow> PipePair \<times> 's) \<Rightarrow> Level \<Rightarrow> 's \<Rightarrow> Level \<times> 's" where
  "eachPipe callback lvl s =
     (let (ps', s') = forEach callback (pipes lvl) s in (lvl\<lparr>pipes := ps'\<rparr>, s'))"

text \<open>The callback of \<^verbatim>\<open>movePipes\<close>: the four horizontal edges move left.\<close>

definition shiftPipe :: "PipePair \<Rightarrow> PipePair" where
  "shiftPipe pipe =
     pipe\<lparr> topPipe := (topPipe pipe)\<lparr> left := left (topPipe pipe) - PIPE_SPEED,
                                        right := right (topPipe pipe) - PIPE_SPEED \<rparr>,
           bottomPipe := (bottomPipe pipe)\<lparr> left := left (bottomPipe pipe) - PIPE_SPEED,
                                              right := right (bottomPipe pipe) - PIPE_SPEED \<rparr> \<rparr>"

text \<open>
  \<^verbatim>\<open>movePipes()\<close>. \<^verbatim>\<open>this.pipes[0]\<close> of an empty array and \<^verbatim>\<open>this.pipes[1]\<close>
  after the shift of an array that had fewer than three pairs are \<^verbatim>\<open>undefined\<close>, and
  reading \<^verbatim>\<open>.topPipe\<close> of them throws.
\<close>

definition movePipes :: "(nat \<Rightarrow> real) \<Rightarrow> Level \<Rightarrow> nat \<Rightarrow> error + (Level \<times> nat)" where
  "movePipes rnd lvl k =
     (let (lvl1, _) = eachPipe (\<lambda>pipe u. (shiftPipe pipe, u)) lvl ()
      in case pipes lvl1 of
           [] \<Rightarrow> Inl TypeError
         | p0 # shifted \<Rightarrow>
             if right (topPipe p0) \<le> 0 then
               (if length shifted \<le> 1 then Inl TypeError
                else
                  let newXOffset = left (topPipe (shifted ! 1)) + HORIZONTAL_PIPE_SPACING;
                      (pipe, k') = randomPipe rnd (dimensions lvl1) newXOffset k
                  in Inr (lvl1\<lparr>pipes := shifted @ [pipe]\<rparr>, k'))
             else Inr (lvl1, k))"

text \<open>
  \<^verbatim>\<open>collidesWith(capyBound)\<close>. The arrow function \<^verbatim>\<open>_overlap\<close> is \<open>overlap\<close>;
  the callback given to \<^verbatim>\<open>eachPipe\<close> closes over the local variable
  \<^verbatim>\<open>collision\<close>, which is the outer state of the iteration. The result is the value
  returned together with the level as the call leaves it.
\<close>

definition overlap :: "Rect \<Rightarrow> Rect \<Rightarrow> bool" where
  "overlap pipe capy =
     (if left pipe > right capy \<or> right pipe < left capy then False
      else if top_edge pipe > bottom capy \<or> bottom pipe < top_edge capy then False
      else True)"

definition collidesWith :: "Rect \<Rightarrow> Level \<Rightarrow> bool \<times> Level" where
  "collidesWith capyBound lvl =
     (let (lvl', collision) =
            eachPipe (\<lambda>pipe collision.
                        if overlap (topPipe pipe) capyBound \<or> overlap (bottomPipe pipe) capyBound
                        then (pipe, True) else (pipe, collision))
                     lvl False
      in (collision, lvl'))"

text \<open>
  \<^verbatim>\<open>passedPipe(capy, callback)\<close>. The callback of the caller takes no argument and
  returns nothing: it acts on the state of the caller, here any type \<open>'s\<close>, which the
  iteration threads through. \<open>passedPipe_each\<close> is the arrow function run on each pair.
\<close>

definition passedPipe_each :: "Rect \<Rightarrow> ('s \<Rightarrow> 's) \<Rightarrow> PipePair \<Rightarrow> 's \<Rightarrow> PipePair \<times> 's" where
  "passedPipe_each capy callback pipe s =
     (if right (topPipe pipe) < left capy then
        (if \<not> passed pipe then (pipe\<lparr>passed := True\<rparr>, callback s) else (pipe, s))
      else (pipe, s))"

definition passedPipe :: "Rect \<Rightarrow> ('s \<Rightarrow> 's) \<Rightarrow> Level \<Rightarrow> 's \<Rightarrow> Level \<times> 's" where
  "passedPipe capy callback lvl s = eachPipe (passedPipe_each capy callback) lvl s"

text \<open>\<open>frames n\<close> is \<open>n\<close> calls of \<^verbatim>\<open>movePipes()\<close> in a row, stopping at an error.\<close>

fun frames :: "nat \<Rightarrow> (nat \<Rightarrow> real) \<Rightarrow> Level \<Rightarrow> nat \<Rightarrow> error + (Level \<times> nat)" where
  "frames 0 rnd lvl k = Inr (lvl, k)"
| "frames (Suc n) rnd lvl k =
     (case movePipes rnd lvl k of
        Inl e \<Rightarrow> Inl e
      | Inr (lvl', k') \<Rightarrow> frames n rnd lvl' k')"

text \<open>
  The overlap test in the words of the specification: two rectangles overlap unless
  one is strictly to the left or right of, or strictly above or below, the other.
\<close>

definition spec_separated :: "Rect \<Rightarrow> Rect \<Rightarrow> bool" where
  "spec_separated a b =
     (right a < left b \<or> right b < left a \<or> bottom a < top_edge b \<or> bottom b < top_edge a)"

definition spec_overlaps :: "Rect \<Rightarrow> Rect \<Rightarrow> bool" where
  "spec_overlaps a b = (\<not> spec_separated a b)"

text \<open>Consecutive pairs of a sequence lie \<open>HORIZONTAL_PIPE_SPACING\<close> apart.\<close>

fun spaced :: "PipePair list \<Rightarrow> bool" where
  "spaced (a # b # ps) =
     (left (topPipe b) - left (topPipe a) = HORIZONTAL_PIPE_SPACING \<and> spaced (b # ps))"
| "spaced ps = True"

text \<open>
  Every pair is generated by one call of \<^verbatim>\<open>randomPipe\<close>, which makes one draw, so
  the number of the draw tells the age of the pair. \<open>drawn_in_order rnd lvl k\<close> says
  that, with \<open>k\<close> draws made so far, the level holds three pairs whose gaps are the
  ones of the last three draws, the oldest of them at the front and the latest at the
  back.
\<close>

definition drawn_in_order :: "(nat \<Rightarrow> real) \<Rightarrow> Level \<Rightarrow> nat \<Rightarrow> bool" where
  "drawn_in_order rnd lvl k =
     (3 \<le> k \<and>
      map (\<lambda>p. bottom (topPipe p)) (pipes lvl) =
        map (\<lambda>i. dbl (dbl (rnd i * (height (dimensions lvl) - (2 * EDGE_BUFFER) - PIPE_GAP))
                         + EDGE_BUFFER))
          [k - 3, k - 2, k - 1])"

text \<open>
  \<^verbatim>\<open>moveAnimatedBackground()\<close>: the \<^verbatim>\<open>switch\<close> on the position of the first strip
  (reading it from an empty queue throws), then every strip moves left.
\<close>

definition moveAnimatedBackground :: "Level \<Rightarrow> error + Level" where
  "moveAnimatedBackground lvl =
     (case backgroundQueue lvl of
        [] \<Rightarrow> Inl TypeError
      | pos0 # rest \<Rightarrow>
          let lvl1 =
                (if pos0 = 480 - 1920 then
                   (let (background, appendBg) = makeBackground (appendBackground lvl)
                    in lvl\<lparr>backgroundQueue := backgroundQueue lvl @ [background],
                           appendBackground := True\<rparr>)
                 else if pos0 = - 1920 then lvl\<lparr>backgroundQueue := rest\<rparr>
                 else lvl)
          in Inr (lvl1\<lparr>backgroundQueue :=
                          map (\<lambda>pos. pos - BACKGROUND_SPEED) (backgroundQueue lvl1)\<rparr>))"

text \<open>
  \<^verbatim>\<open>Level.animate(ctx)\<close> moves the pipes and draws them, and
  \<^verbatim>\<open>Level.animateBackground(ctx)\<close> moves the background and draws it; drawing
  changes nothing in the level.
\<close>

definition Level_animate :: "(nat \<Rightarrow> real) \<Rightarrow> Level \<Rightarrow> nat \<Rightarrow> error + (Level \<times> nat)" where
  "Level_animate rnd lvl k = movePipes rnd lvl k"

definition animateBackground :: "Level \<Rightarrow> error + Level" where
  "animateBackground lvl = moveAnimatedBackground lvl"

section \<open>Capy\<close>

text \<open>
  The fields \<^verbatim>\<open>x\<close>, \<^verbatim>\<open>y\<close> and \<^verbatim>\<open>dimensions\<close> of the capy are called
  \<open>capy_x\<close>, \<open>capy_y\<close> and \<open>dimensionsC\<close>. The three sprite images are not part of
  the model.
\<close>

record Capy =
  dimensionsC :: Dimensions
  capy_x :: real
  capy_y :: real
  vel :: real
  capyCounter :: nat

definition Capy_constructor :: "Dimensions \<Rightarrow> Capy" where
  "Capy_constructor dims =
     \<lparr> dimensionsC = dims,
       capy_x = width dims / 3,
       capy_y = height dims / 2,
       vel = 0,
       capyCounter = 0 \<rparr>"

definition moveCapy :: "Capy \<Rightarrow> Capy" where
  "moveCapy c =
     (let c1 = c\<lparr>capy_y := capy_y c + vel c\<rparr>;
          c2 = c1\<lparr>vel := vel c1 + GRAVITY\<rparr>
      in if \<bar>vel c2\<bar> > TERMINAL_VEL then
           (if vel c2 > 0 then c2\<lparr>vel := TERMINAL_VEL\<rparr>
            else c2\<lparr>vel := TERMINAL_VEL * - 1\<rparr>)
         else c2)"

definition flap :: "Capy \<Rightarrow> Capy" where
  "flap c = c\<lparr>vel := FLAP_SPEED * - 1\<rparr>"

definition bounds :: "Capy \<Rightarrow> Rect" where
  "bounds c =
     \<lparr> left = capy_x c,
       right = capy_x c + CAPY_WIDTH,
       top_edge = capy_y c,
       bottom = capy_y c + CAPY_HEIGHT \<rparr>"

definition outOfBounds :: "Capy \<Rightarrow> bool" where
  "outOfBounds c =
     (let aboveTop = capy_y c < 0;
          belowBottom = capy_y c + CAPY_HEIGHT > height (dimensionsC c)
      in aboveTop \<or> belowBottom)"

text \<open>
  \<^verbatim>\<open>drawCapy(ctx)\<close> advances the sprite counter. Past the fourth range no sprite is
  chosen, and drawing \<^verbatim>\<open>undefined\<close> throws.
\<close>

definition drawCapy :: "Capy \<Rightarrow> error + Capy" where
  "drawCapy c =
     (let c1 = c\<lparr>capyCounter := capyCounter c + 1\<rparr>
      in if capyCounter c1 \<le> ANIMATED_FLAP_SPEED * 1 then Inr c1
         else if capyCounter c1 \<le> ANIMATED_FLAP_SPEED * 2 then Inr c1
         else if capyCounter c1 \<le> ANIMATED_FLAP_SPEED * 3 then Inr c1
         else if capyCounter c1 \<le> ANIMATED_FLAP_SPEED * 4 then Inr (c1\<lparr>capyCounter := 0\<rparr>)
         else Inl TypeError)"

text \<open>A sequence of calls on a capy, for the properties of every such sequence.\<close>

datatype capy_call = MoveCapy | Flap

fun call :: "capy_call \<Rightarrow> Capy \<Rightarrow> Capy" where
  "call MoveCapy c = moveCapy c"
| "call Flap c = flap c"

fun calls :: "capy_call list \<Rightarrow> Capy \<Rightarrow> Capy" where
  "calls [] c = c"
| "calls (x # xs) c = calls xs (call x c)"

section \<open>FlappyCapy\<close>

text \<open>
  The game object. The canvas context and the audio elements are outside the model;
  \<open>alerts\<close> records the score shown by each \<^verbatim>\<open>alert\<close>, and the field
  \<^verbatim>\<open>dimensions\<close> is called \<open>dimensionsG\<close>.
\<close>

record FlappyCapy =
  dimensionsG :: Dimensions
  level :: Level
  capy :: Capy
  score :: nat
  running :: bool
  backgroundRunning :: bool
  alerts :: "nat list"

text \<open>
  \<^verbatim>\<open>gameOver()\<close>. The call of \<^verbatim>\<open>collidesWith\<close> comes first and hands the level
  back.
\<close>

definition gameOver :: "FlappyCapy \<Rightarrow> bool \<times> FlappyCapy" where
  "gameOver g =
     (let (collision, lvl') = collidesWith (bounds (capy g)) (level g);
          g' = g\<lparr>level := lvl'\<rparr>
      in (collision \<or> outOfBounds (capy g'), g'))"

text \<open>
  \<^verbatim>\<open>animateLevelBackground()\<close>, up to the request of the next animation frame, which
  belongs to a later frame.
\<close>

definition animateLevelBackground :: "FlappyCapy \<Rightarrow> error + FlappyCapy" where
  "animateLevelBackground g =
     (case animateBackground (level g) of
        Inl e \<Rightarrow> Inl e
      | Inr lvl' \<Rightarrow>
          let g1 = g\<lparr>level := lvl'\<rparr>;
              g2 = (if running g1 then g1\<lparr>capy := moveCapy (capy g1)\<rparr> else g1)
          in case drawCapy (capy g2) of
               Inl e \<Rightarrow> Inl e
             | Inr c \<Rightarrow> Inr (g2\<lparr>capy := c\<rparr>))"

text \<open>
  \<^verbatim>\<open>animate()\<close> and \<^verbatim>\<open>restart()\<close> call each other: a frame that finds the game
  over restarts, and the restart runs a frame on the fresh state. Nothing in the source
  bounds that chain, so both functions take fuel, the depth of calls still allowed, and
  return \<open>None\<close> when it runs out. The request of the next animation frame at the end of
  \<^verbatim>\<open>animate()\<close> belongs to a later frame.
\<close>

fun animate :: "nat \<Rightarrow> (nat \<Rightarrow> real) \<Rightarrow> FlappyCapy \<Rightarrow> nat \<Rightarrow> (error + FlappyCapy \<times> nat) option"
  and restart :: "nat \<Rightarrow> (nat \<Rightarrow> real) \<Rightarrow> FlappyCapy \<Rightarrow> nat \<Rightarrow> (error + FlappyCapy \<times> nat) option"
where
  "animate 0 rnd g k = None"
| "animate (Suc n) rnd g k =
     (case Level_animate rnd (level g) k of
        Inl e \<Rightarrow> Some (Inl e)
      | Inr (lvl1, k1) \<Rightarrow>
          let (over, g1) = gameOver (g\<lparr>level := lvl1\<rparr>)
          in case (if over then restart n rnd (g1\<lparr>alerts := alerts g1 @ [score g1]\<rparr>) k1
                   else Some (Inr (g1, k1))) of
               None \<Rightarrow> None
             | Some (Inl e) \<Rightarrow> Some (Inl e)
             | Some (Inr (g2, k2)) \<Rightarrow>
                 let (lvl3, score3) =
                       passedPipe (bounds (capy g2)) (\<lambda>s. s + 1) (level g2) (score g2)
                 in Some (Inr (g2\<lparr>level := lvl3, score := score3\<rparr>, k2)))"
| "restart 0 rnd g k = None"
| "restart (Suc n) rnd g k =
     (let g1 = g\<lparr>running := False\<rparr>;
          (lvl, k1) = Level_constructor rnd (dimensionsG g1) k;
          g2 = g1\<lparr>level := lvl\<rparr>;
          g3 = g2\<lparr>capy := Capy_constructor (dimensionsG g2)\<rparr>
      in case (if \<not> backgroundRunning g3 then
                 (case animateLevelBackground g3 of
                    Inl e \<Rightarrow> Inl e
                  | Inr g4 \<Rightarrow> Inr (g4\<lparr>backgroundRunning := True\<rparr>))
               else Inr g3) of
           Inl e \<Rightarrow> Some (Inl e)
         | Inr g5 \<Rightarrow> animate n rnd (g5\<lparr>score := 0\<rparr>) k1)"

text \<open>\<^verbatim>\<open>play()\<close> and the handler of \<^verbatim>\<open>mousedown\<close>.\<close>

definition play :: "nat \<Rightarrow> (nat \<Rightarrow> real) \<Rightarrow> FlappyCapy \<Rightarrow> nat \<Rightarrow> (error + FlappyCapy \<times> nat) option" where
  "play n rnd g k = animate n rnd (g\<lparr>running := True\<rparr>) k"

definition mousedown :: "nat \<Rightarrow> (nat \<Rightarrow> real) \<Rightarrow> FlappyCapy \<Rightarrow> nat \<Rightarrow> (error + FlappyCapy \<times> nat) option" where
  "mousedown n rnd g k =
     (case (if \<not> running g then play n rnd g k else Some (Inr (g, k))) of
        None \<Rightarrow> None
      | Some (Inl e) \<Rightarrow> Some (Inl e)
      | Some (Inr (g1, k1)) \<Rightarrow> Some (Inr (g1\<lparr>capy := flap (capy g1)\<rparr>, k1)))"

section \<open>Basic facts\<close>

lemmas CONSTANTS_defs =
  HORIZONTAL_PIPE_SPACING_def PIPE_GAP_def WARMUP_SECONDS_def EDGE_BUFFER_def
  PIPE_WIDTH_def PIPE_SPEED_def BACKGROUND_SPEED_def

lemmas CONST_defs =
  CAPY_WIDTH_def CAPY_HEIGHT_def GRAVITY_def FLAP_SPEED_def TERMINAL_VEL_def
  ANIMATED_FLAP_SPEED_def

section \<open>Rounding to doubles\<close>

lemma round_even_of_int: "round_even (of_int i) = i"
  by (simp add: round_even_def)

lemma round_even_range: "\<lfloor>y\<rfloor> \<le> round_even y \<and> round_even y \<le> \<lfloor>y\<rfloor> + 1"
  by (simp add: round_even_def Let_def)

lemma round_even_mono:
  assumes "x \<le> y"
  shows "round_even x \<le> round_even y"
proof -
  have fl: "\<lfloor>x\<rfloor> \<le> \<lfloor>y\<rfloor>" using assms by (rule floor_mono)
  show ?thesis
  proof (cases "\<lfloor>x\<rfloor> = \<lfloor>y\<rfloor>")
    case True
    with assms show ?thesis
      by (auto simp: round_even_def Let_def)
  next
    case False
    with fl have "\<lfloor>x\<rfloor> + 1 \<le> \<lfloor>y\<rfloor>" by simp
    with round_even_range [of x] round_even_range [of y] show ?thesis by linarith
  qed
qed

lemma round_even_le: "y \<le> of_int i \<Longrightarrow> round_even y \<le> i"
  using round_even_mono [of y "of_int i"] by (simp add: round_even_of_int)

lemma round_even_ge: "of_int i \<le> y \<Longrightarrow> i \<le> round_even y"
  using round_even_mono [of "of_int i" y] by (simp add: round_even_of_int)

lemma round_even_error: "\<bar>of_int (round_even y) - y\<bar> \<le> 1 / 2"
proof -
  define f where "f = \<lfloor>y\<rfloor>"
  have a: "of_int f \<le> y" "y < of_int f + 1"
    unfolding f_def by linarith+
  have "round_even y =
          (if y - of_int f < 1 / 2 then f
           else if 1 / 2 < y - of_int f then f + 1
           else if even f then f else f + 1)"
    by (simp add: round_even_def f_def)
  with a show ?thesis
    by (auto simp: abs_if split: if_splits)
qed

lemma dbl_zero: "dbl 0 = 0"
  by (simp add: dbl_def)

lemma dbl_minus: "dbl (- x) = - dbl x"
  by (simp add: dbl_def Let_def sgn_minus)

lemma dbl_pos:
  assumes "0 < x"
  shows "dbl x = 2 powr (of_int (max \<lfloor>log 2 x\<rfloor> (- 1022)) - 52)
                   * of_int (round_even (x / 2 powr (of_int (max \<lfloor>log 2 x\<rfloor> (- 1022)) - 52)))"
  using assms by (simp add: dbl_def Let_def)

lemma dbl_nonneg: "0 \<le> x \<Longrightarrow> 0 \<le> dbl x"
proof (cases "x = 0")
  case True
  then show ?thesis by (simp add: dbl_zero)
next
  case False
  assume "0 \<le> x"
  with False have x: "0 < x" by simp
  have "0 \<le> x / 2 powr (of_int (max \<lfloor>log 2 x\<rfloor> (- 1022)) - 52)"
    using x by simp
  then have "0 \<le> round_even (x / 2 powr (of_int (max \<lfloor>log 2 x\<rfloor> (- 1022)) - 52))"
    using round_even_ge [of 0] by simp
  then show ?thesis
    by (simp add: dbl_pos [OF x])
qed

lemma ex_upper:
  assumes "0 < x"
  shows "x < 2 powr (of_int (max \<lfloor>log 2 x\<rfloor> (- 1022)) + 1)"
proof -
  have "log 2 x < of_int \<lfloor>log 2 x\<rfloor> + 1" by linarith
  also have "\<dots> \<le> of_int (max \<lfloor>log 2 x\<rfloor> (- 1022)) + 1" by simp
  finally have "log 2 x < of_int (max \<lfloor>log 2 x\<rfloor> (- 1022)) + 1" .
  then show ?thesis
    using assms by (simp add: log_less_iff)
qed

lemma ex_lower:
  assumes "0 < x" and "- 1022 < max \<lfloor>log 2 x\<rfloor> (- 1022)"
  shows "2 powr of_int (max \<lfloor>log 2 x\<rfloor> (- 1022)) \<le> x"
proof -
  from assms(2) have "max \<lfloor>log 2 x\<rfloor> (- 1022) = \<lfloor>log 2 x\<rfloor>" by simp
  moreover have "of_int \<lfloor>log 2 x\<rfloor> \<le> log 2 x" by simp
  ultimately have "of_int (max \<lfloor>log 2 x\<rfloor> (- 1022)) \<le> log 2 x" by simp
  then show ?thesis
    using assms(1) by (simp add: le_log_iff)
qed

lemma ex_mono:
  assumes "0 < x" and "x \<le> y"
  shows "max \<lfloor>log 2 x\<rfloor> (- 1022) \<le> max \<lfloor>log 2 y\<rfloor> (- 1022)"
proof -
  have "log 2 x \<le> log 2 y" using assms by simp
  then have "\<lfloor>log 2 x\<rfloor> \<le> \<lfloor>log 2 y\<rfloor>" by (rule floor_mono)
  then show ?thesis by simp
qed


lemma pow2_53: "(2::real) powr (a - 52) * 2 ^ 53 = 2 powr (a + 1)"
proof -
  have "(2::real) powr (a - 52) * 2 powr 53 = 2 powr ((a - 52) + 53)"
    by (rule powr_add [symmetric])
  then show ?thesis by (simp add: add.commute)
qed

lemma pow2_52: "(2::real) powr (a - 52) * 2 ^ 52 = 2 powr a"
proof -
  have "(2::real) powr (a - 52) * 2 powr 52 = 2 powr ((a - 52) + 52)"
    by (rule powr_add [symmetric])
  then show ?thesis by simp
qed

lemma dbl_mono:
  assumes "0 \<le> x" and "x \<le> y"
  shows "dbl x \<le> dbl y"
proof (cases "x = 0")
  case True
  with assms show ?thesis by (simp add: dbl_zero dbl_nonneg)
next
  case False
  with assms have x: "0 < x" and y: "0 < y" by simp_all
  define ex where "ex = max \<lfloor>log 2 x\<rfloor> (- 1022)"
  define ey where "ey = max \<lfloor>log 2 y\<rfloor> (- 1022)"
  define ux :: real where "ux = 2 powr (of_int ex - 52)"
  define uy :: real where "uy = 2 powr (of_int ey - 52)"
  have dx: "dbl x = ux * of_int (round_even (x / ux))"
    by (simp add: dbl_pos [OF x] ux_def ex_def)
  have dy: "dbl y = uy * of_int (round_even (y / uy))"
    by (simp add: dbl_pos [OF y] uy_def ey_def)
  have ux: "0 < ux" and uy: "0 < uy" by (simp_all add: ux_def uy_def)
  have ux53: "ux * 2 ^ 53 = 2 powr (of_int ex + 1)"
    unfolding ux_def by (rule pow2_53)
  have uy52: "uy * 2 ^ 52 = 2 powr of_int ey"
    unfolding uy_def by (rule pow2_52)
  have le: "ex \<le> ey"
    unfolding ex_def ey_def by (rule ex_mono [OF x assms(2)])
  show ?thesis
  proof (cases "ex = ey")
    case True
    then have "uy = ux" by (simp add: ux_def uy_def)
    moreover have "x / ux \<le> y / ux"
      using assms(2) ux by (simp add: divide_right_mono)
    then have "round_even (x / ux) \<le> round_even (y / ux)" by (rule round_even_mono)
    then have "ux * of_int (round_even (x / ux)) \<le> ux * of_int (round_even (y / ux))"
      using ux by simp
    ultimately show ?thesis by (simp add: dx dy)
  next
    case False
    with le have lt: "ex + 1 \<le> ey" by simp
    have "x < 2 powr (of_int ex + 1)"
      unfolding ex_def by (rule ex_upper [OF x])
    then have "x < ux * 2 ^ 53" by (simp only: ux53)
    then have "x / ux < 2 ^ 53"
      using ux by (simp add: field_simps)
    then have "x / ux \<le> of_int (2 ^ 53)" by simp
    then have "round_even (x / ux) \<le> 2 ^ 53" by (rule round_even_le)
    then have "real_of_int (round_even (x / ux)) \<le> real_of_int (2 ^ 53)"
      by (simp only: of_int_le_iff)
    then have "real_of_int (round_even (x / ux)) \<le> 2 ^ 53" by simp
    then have "ux * real_of_int (round_even (x / ux)) \<le> ux * 2 ^ 53"
      using ux by (simp only: mult_le_cancel_left_pos)
    then have "dbl x \<le> 2 powr (of_int ex + 1)"
      by (simp only: dx ux53)
    also have "\<dots> \<le> 2 powr of_int ey"
    proof (rule powr_mono)
      from lt show "real_of_int ex + 1 \<le> real_of_int ey" by linarith
    qed simp
    finally have a: "dbl x \<le> 2 powr of_int ey" .
    have "- 1022 \<le> ex" by (simp add: ex_def)
    with lt have "- 1022 < max \<lfloor>log 2 y\<rfloor> (- 1022)" by (simp add: ey_def)
    from ex_lower [OF y this] have "2 powr of_int ey \<le> y" by (simp add: ey_def)
    then have "uy * 2 ^ 52 \<le> y" by (simp only: uy52)
    then have "2 ^ 52 \<le> y / uy"
      using uy by (simp add: field_simps)
    then have "of_int (2 ^ 52) \<le> y / uy" by simp
    then have "2 ^ 52 \<le> round_even (y / uy)" by (rule round_even_ge)
    then have "real_of_int (2 ^ 52) \<le> real_of_int (round_even (y / uy))"
      by (simp only: of_int_le_iff)
    then have "2 ^ 52 \<le> real_of_int (round_even (y / uy))" by simp
    then have "uy * 2 ^ 52 \<le> uy * real_of_int (round_even (y / uy))"
      using uy by (simp only: mult_le_cancel_left_pos)
    then have b: "2 powr of_int ey \<le> dbl y"
      by (simp only: dy uy52)
    from a b show ?thesis by simp
  qed
qed


lemma dbl_binade:
  assumes "2 ^ n \<le> x" and "x < 2 ^ Suc n" and "n \<le> 52"
  shows "dbl x = of_int (round_even (x * 2 ^ (52 - n))) / 2 ^ (52 - n)"
proof -
  have x: "0 < x"
    using assms(1) by (rule less_le_trans [rotated]) simp
  have "2 powr real n \<le> x"
    using assms(1) by (simp add: powr_realpow)
  then have lo: "of_int (int n) \<le> log 2 x"
    using x by (simp add: le_log_iff)
  have "x < 2 powr real (Suc n)"
    using assms(2) by (simp only: powr_realpow [OF zero_less_numeral])
  then have hi: "log 2 x < of_int (int n) + 1"
    using x by (simp add: log_less_iff add.commute)
  have fl: "\<lfloor>log 2 x\<rfloor> = int n"
    using lo hi by (rule floor_unique)
  have "real n - 52 = - real (52 - n)"
    using assms(3) by simp
  then have "(2::real) powr (real n - 52) = 2 powr (- real (52 - n))"
    by (rule arg_cong)
  also have "\<dots> = inverse (2 powr real (52 - n))"
    by (rule powr_minus)
  also have "\<dots> = inverse (2 ^ (52 - n))"
    by (simp add: powr_realpow)
  finally have u: "(2::real) powr (real n - 52) = inverse (2 ^ (52 - n))" .
  have m: "max (int n) (- 1022) = int n" by simp
  show ?thesis
    by (simp add: dbl_pos [OF x] fl m u divide_inverse mult.commute)
qed

lemma dbl_nat:
  assumes "n < 2 ^ 53"
  shows "dbl (real n) = real n"
proof (cases "n = 0")
  case True
  then show ?thesis by (simp add: dbl_zero)
next
  case False
  then have "1 \<le> n" by simp
  with ex_power_ivl1 [of 2 n] obtain m where m: "2 ^ m \<le> n" "n < 2 ^ (m + 1)"
    by auto
  from m(1) assms have "(2::nat) ^ m < 2 ^ 53" by (rule le_less_trans)
  then have "m < 53" by (rule power_less_imp_less_exp [rotated]) simp
  then have m52: "m \<le> 52" by simp
  have "real (2 ^ m) \<le> real n"
    using m(1) by (rule of_nat_mono)
  then have a: "2 ^ m \<le> real n" by simp
  have "real n < real (2 ^ Suc m)"
    using m(2) by (simp only: of_nat_less_iff Suc_eq_plus1)
  then have b: "real n < 2 ^ Suc m" by simp
  have "real n * 2 ^ (52 - m) = of_int (int (n * 2 ^ (52 - m)))"
    by simp
  then have "round_even (real n * 2 ^ (52 - m)) = int (n * 2 ^ (52 - m))"
    by (simp only: round_even_of_int)
  then show ?thesis
    by (simp add: dbl_binade [OF a b m52])
qed

lemma dbl_error:
  assumes "1 \<le> x"
  shows "\<bar>dbl x - x\<bar> \<le> x / 2 ^ 53"
proof -
  have x: "0 < x" using assms by simp
  define e where "e = max \<lfloor>log 2 x\<rfloor> (- 1022)"
  define u :: real where "u = 2 powr (of_int e - 52)"
  have u: "0 < u" by (simp add: u_def)
  have d: "dbl x = u * of_int (round_even (x / u))"
    by (simp add: dbl_pos [OF x] u_def e_def)
  have "0 \<le> log 2 x" using assms by simp
  then have "0 \<le> \<lfloor>log 2 x\<rfloor>" by simp
  then have "- 1022 < max \<lfloor>log 2 x\<rfloor> (- 1022)" by simp
  from ex_lower [OF x this] have lo: "2 powr of_int e \<le> x" by (simp add: e_def)
  have u52: "u * 2 ^ 52 = 2 powr of_int e"
    unfolding u_def by (rule pow2_52)
  have "dbl x - x = u * (of_int (round_even (x / u)) - x / u)"
    using u by (simp add: d field_simps)
  then have "\<bar>dbl x - x\<bar> = u * \<bar>of_int (round_even (x / u)) - x / u\<bar>"
    using u by (simp add: abs_mult)
  also have "\<dots> \<le> u * (1 / 2)"
    using u round_even_error [of "x / u"] by (simp only: mult_le_cancel_left_pos)
  also have "\<dots> = (u * 2 ^ 52) / 2 ^ 53" by simp
  also have "\<dots> \<le> x / 2 ^ 53"
    using lo by (simp only: u52 divide_right_mono zero_le_numeral zero_le_power)
  finally show ?thesis .
qed

section \<open>Iterating over the pairs\<close>

lemma forEach_pure:
  "forEach (\<lambda>p u. (f p, u)) ps s = (map f ps, s)"
  by (induction ps) simp_all

lemma forEach_flag:
  "forEach (\<lambda>p c. if P p then (p, True) else (p, c)) ps c = (ps, c \<or> (\<exists>p \<in> set ps. P p))"
  by (induction ps arbitrary: c) auto

lemma overlap_spec: "overlap a b = spec_overlaps a b"
  by (auto simp: overlap_def spec_overlaps_def spec_separated_def)

lemma collidesWith_eq:
  "collidesWith b lvl =
     ((\<exists>p \<in> set (pipes lvl). overlap (topPipe p) b \<or> overlap (bottomPipe p) b), lvl)"
  by (simp add: collidesWith_def eachPipe_def forEach_flag)

lemma movePipes_three:
  assumes "length (pipes lvl) = 3"
  shows "movePipes rnd lvl k =
     (if right (topPipe (hd (map shiftPipe (pipes lvl)))) \<le> 0 then
        Inr (lvl\<lparr>pipes := tl (map shiftPipe (pipes lvl)) @
               [fst (randomPipe rnd (dimensions lvl)
                  (left (topPipe (last (map shiftPipe (pipes lvl)))) + HORIZONTAL_PIPE_SPACING) k)]\<rparr>, Suc k)
      else Inr (lvl\<lparr>pipes := map shiftPipe (pipes lvl)\<rparr>, k))"
proof -
  from assms obtain a b c where ps: "pipes lvl = [a, b, c]"
    by (auto simp: length_Suc_conv numeral_3_eq_3)
  show ?thesis
    by (simp add: movePipes_def eachPipe_def forEach_pure ps randomPipe_def Math_random_def Let_def)
qed

lemma passedPipe_each_eq:
  "passedPipe_each cb callback p s =
     (if right (topPipe p) < left cb then p\<lparr>passed := True\<rparr> else p,
      if right (topPipe p) < left cb \<and> \<not> passed p then callback s else s)"
  by (simp add: passedPipe_each_def)

lemma forEach_passed:
  "forEach (passedPipe_each cb callback) ps s =
     (map (\<lambda>p. if right (topPipe p) < left cb then p\<lparr>passed := True\<rparr> else p) ps,
      (callback ^^ length (filter (\<lambda>p. right (topPipe p) < left cb \<and> \<not> passed p) ps)) s)"
proof (induction ps arbitrary: s)
  case Nil
  show ?case by simp
next
  case (Cons p ps)
  have "forEach (passedPipe_each cb callback) (p # ps) s =
          (let (p', s') = passedPipe_each cb callback p s;
               (ps', s'') = forEach (passedPipe_each cb callback) ps s'
           in (p' # ps', s''))"
    by (simp only: forEach.simps)
  also have "\<dots> = (fst (passedPipe_each cb callback p s) #
                     map (\<lambda>p. if right (topPipe p) < left cb then p\<lparr>passed := True\<rparr> else p) ps,
                   (callback ^^ length (filter (\<lambda>p. right (topPipe p) < left cb \<and> \<not> passed p) ps))
                     (snd (passedPipe_each cb callback p s)))"
    by (simp only: Cons.IH Let_def split_beta fst_conv snd_conv)
  also have "\<dots> = (map (\<lambda>p. if right (topPipe p) < left cb then p\<lparr>passed := True\<rparr> else p) (p # ps),
                   (callback ^^ length (filter (\<lambda>p. right (topPipe p) < left cb \<and> \<not> passed p) (p # ps))) s)"
    by (simp add: passedPipe_each_eq funpow_swap1)
  finally show ?case .
qed

lemma passedPipe_eq:
  "passedPipe cb callback lvl s =
     (lvl\<lparr>pipes := map (\<lambda>p. if right (topPipe p) < left cb then p\<lparr>passed := True\<rparr> else p)
                        (pipes lvl)\<rparr>,
      (callback ^^ length (filter (\<lambda>p. right (topPipe p) < left cb \<and> \<not> passed p) (pipes lvl))) s)"
  by (simp add: passedPipe_def eachPipe_def forEach_passed)

lemma shiftPipe_edges:
  "left (topPipe (shiftPipe p)) = left (topPipe p) - PIPE_SPEED"
  "right (topPipe (shiftPipe p)) = right (topPipe p) - PIPE_SPEED"
  "left (bottomPipe (shiftPipe p)) = left (bottomPipe p) - PIPE_SPEED"
  "right (bottomPipe (shiftPipe p)) = right (bottomPipe p) - PIPE_SPEED"
  "top_edge (topPipe (shiftPipe p)) = top_edge (topPipe p)"
  "bottom (topPipe (shiftPipe p)) = bottom (topPipe p)"
  "top_edge (bottomPipe (shiftPipe p)) = top_edge (bottomPipe p)"
  "bottom (bottomPipe (shiftPipe p)) = bottom (bottomPipe p)"
  "passed (shiftPipe p) = passed p"
  by (simp_all add: shiftPipe_def)

lemma spaced_shift: "spaced (map shiftPipe ps) = spaced ps"
  by (induction ps rule: spaced.induct) (simp_all add: shiftPipe_def)

lemma randomPipe_left:
  "left (topPipe (fst (randomPipe rnd dims distance k))) = distance"
  by (simp add: randomPipe_def Math_random_def Let_def)

lemma randomPipe_cursor: "snd (randomPipe rnd dims distance k) = Suc k"
  by (simp add: randomPipe_def Math_random_def Let_def)

lemma randomPipe_gap_edges:
  "bottom (topPipe (fst (randomPipe rnd dims distance k)))
     = dbl (dbl (rnd k * (height dims - 2 * EDGE_BUFFER - PIPE_GAP)) + EDGE_BUFFER)"
  "top_edge (bottomPipe (fst (randomPipe rnd dims distance k)))
     = dbl (dbl (dbl (rnd k * (height dims - 2 * EDGE_BUFFER - PIPE_GAP)) + EDGE_BUFFER)
            + PIPE_GAP)"
  by (simp_all add: randomPipe_def Math_random_def Let_def)

lemma constructor_pipes:
  "pipes (fst (Level_constructor rnd dims k)) =
     [fst (randomPipe rnd dims (width dims + 120) k),
      fst (randomPipe rnd dims (width dims + 120 + 220) (Suc k)),
      fst (randomPipe rnd dims (width dims + 120 + 440) (Suc (Suc k)))]"
  by (simp add: Level_constructor_def randomPipe_def Math_random_def Let_def CONSTANTS_defs makeBackground_def)

lemma constructor_spaced: "spaced (pipes (fst (Level_constructor rnd dims k)))"
  by (simp add: constructor_pipes randomPipe_left CONSTANTS_defs)

lemma movePipes_inv:
  assumes "length (pipes lvl) = 3" and "spaced (pipes lvl)"
  shows "\<exists>lvl' k'. movePipes rnd lvl k = Inr (lvl', k') \<and> length (pipes lvl') = 3
            \<and> spaced (pipes lvl')"
proof -
  from assms(1) obtain a b c where ps: "pipes lvl = [a, b, c]"
    by (auto simp: length_Suc_conv numeral_3_eq_3)
  have "spaced [shiftPipe a, shiftPipe b, shiftPipe c]"
    using spaced_shift [of "[a, b, c]"] assms(2) by (simp add: ps)
  then show ?thesis
    by (simp add: movePipes_three [OF assms(1)] ps randomPipe_left)
qed

lemma frames_inv:
  assumes "length (pipes lvl) = 3" and "spaced (pipes lvl)"
  shows "\<exists>lvl' k'. frames n rnd lvl k = Inr (lvl', k') \<and> length (pipes lvl') = 3
            \<and> spaced (pipes lvl')"
  using assms
proof (induction n arbitrary: lvl k)
  case 0
  then show ?case by simp
next
  case (Suc n)
  from movePipes_inv [OF Suc.prems, of rnd k]
  obtain lvl1 k1 where m: "movePipes rnd lvl k = Inr (lvl1, k1)"
    and l: "length (pipes lvl1) = 3" and sp: "spaced (pipes lvl1)"
    by blast
  from Suc.IH [OF l sp, of k1] show ?case
    by (simp add: m)
qed

lemma spaced_sorted:
  "spaced ps \<Longrightarrow> sorted_wrt (\<lambda>a b. left (topPipe a) < left (topPipe b)) ps"
proof (induction ps rule: spaced.induct)
  case (1 a b ps)
  then have sb: "sorted_wrt (\<lambda>a b. left (topPipe a) < left (topPipe b)) (b # ps)"
    and ab: "left (topPipe a) < left (topPipe b)"
    by (simp_all add: HORIZONTAL_PIPE_SPACING_def)
  from sb ab have "\<forall>x \<in> set (b # ps). left (topPipe a) < left (topPipe x)"
    by (auto intro: less_trans)
  with sb show ?case by simp
qed simp_all

lemma constructor_drawn:
  "drawn_in_order rnd (fst (Level_constructor rnd dims k)) (snd (Level_constructor rnd dims k))"
  by (simp add: drawn_in_order_def Level_constructor_def randomPipe_def Math_random_def Let_def
      makeBackground_def)

lemma movePipes_drawn:
  assumes "drawn_in_order rnd lvl k" and "movePipes rnd lvl k = Inr (lvl', k')"
  shows "drawn_in_order rnd lvl' k'"
proof -
  from assms(1) have len: "length (pipes lvl) = 3"
    by (auto simp: drawn_in_order_def dest: arg_cong [where f = length])
  then obtain a b c where ps: "pipes lvl = [a, b, c]"
    by (auto simp: length_Suc_conv numeral_3_eq_3)
  from assms(1) have k: "3 \<le> k" by (simp add: drawn_in_order_def)
  then have ks: "Suc k - 3 = k - 2" "Suc k - 2 = k - 1"
    by simp_all
  show ?thesis
    using assms k
    by (auto simp: movePipes_three [OF len] ps drawn_in_order_def shiftPipe_edges
        randomPipe_gap_edges ks split: if_splits)
qed

lemma frames_drawn:
  assumes "drawn_in_order rnd lvl k" and "frames n rnd lvl k = Inr (lvl', k')"
  shows "drawn_in_order rnd lvl' k'"
  using assms
proof (induction n arbitrary: lvl k)
  case 0
  then show ?case by simp
next
  case (Suc n)
  show ?case
  proof (cases "movePipes rnd lvl k")
    case (Inl e)
    with Suc.prems(2) show ?thesis by simp
  next
    case (Inr r)
    obtain lvl1 k1 where r: "r = (lvl1, k1)" by (cases r)
    from Suc.prems(2) have "frames n rnd lvl1 k1 = Inr (lvl', k')"
      by (simp add: Inr r)
    moreover have "drawn_in_order rnd lvl1 k1"
      using movePipes_drawn [OF Suc.prems(1)] Inr r by simp
    ultimately show ?thesis by (rule Suc.IH [rotated])
  qed
qed

section \<open>The pipe sequence\<close>

text \<open>
  Claim C2. After the constructor and any number \<open>n\<close> of frames of \<^verbatim>\<open>movePipes()\<close>,
  whatever the random source returns, the frames have all returned normally and the
  level holds exactly 3 pairs. They are in the order of their creation: they are the
  pairs generated by the last three draws of the random source, the pair of the oldest
  of these draws at the front and the pair of the latest draw at the back; the left
  edges increase from front to back; and the next frame either keeps the same pairs in
  the same order or drops the pair at the front and puts one new pair at the back.
\<close>

theorem pipes_count_order:
  "\<exists>lvl k'. frames n rnd (fst (Level_constructor rnd dims k)) (snd (Level_constructor rnd dims k))
               = Inr (lvl, k')
     \<and> length (pipes lvl) = 3
     \<and> drawn_in_order rnd lvl k'
     \<and> sorted_wrt (\<lambda>a b. left (topPipe a) < left (topPipe b)) (pipes lvl)
     \<and> (\<exists>lvl2 k2. movePipes rnd lvl k' = Inr (lvl2, k2)
          \<and> (pipes lvl2 = map shiftPipe (pipes lvl)
              \<or> (\<exists>pipe. pipes lvl2 = tl (map shiftPipe (pipes lvl)) @ [pipe])))"
proof -
  have l0: "length (pipes (fst (Level_constructor rnd dims k))) = 3"
    by (simp add: constructor_pipes)
  from frames_inv [OF l0 constructor_spaced, of n rnd "snd (Level_constructor rnd dims k)"]
  obtain lvl k' where f: "frames n rnd (fst (Level_constructor rnd dims k))
                            (snd (Level_constructor rnd dims k)) = Inr (lvl, k')"
    and l: "length (pipes lvl) = 3" and sp: "spaced (pipes lvl)"
    by blast
  have "\<exists>lvl2 k2. movePipes rnd lvl k' = Inr (lvl2, k2)
          \<and> (pipes lvl2 = map shiftPipe (pipes lvl)
              \<or> (\<exists>pipe. pipes lvl2 = tl (map shiftPipe (pipes lvl)) @ [pipe]))"
    by (simp add: movePipes_three [OF l])
  with f l spaced_sorted [OF sp] frames_drawn [OF constructor_drawn f] show ?thesis by blast
qed

theorem pipes_count_order_witness:
  "\<exists>lvl k'. frames 2 (\<lambda>n. 1 / 2) (fst (Level_constructor (\<lambda>n. 1 / 2) \<lparr>width = 480, height = 640\<rparr> 0))
                 (snd (Level_constructor (\<lambda>n. 1 / 2) \<lparr>width = 480, height = 640\<rparr> 0)) = Inr (lvl, k')
     \<and> length (pipes lvl) = 3"
  using pipes_count_order [of 2 "\<lambda>n. 1 / 2" "\<lparr>width = 480, height = 640\<rparr>" 0] by blast

text \<open>
  Claim C3. A frame of \<^verbatim>\<open>movePipes()\<close> on a level of 3 pairs first moves the four
  horizontal edges of every pair left by \<open>PIPE_SPEED\<close>. Then, exactly when the right
  edge of the front pair is at or left of 0, that pair is removed and a new pair is
  appended, generated at the left edge of the last remaining pair plus
  \<open>HORIZONTAL_PIPE_SPACING\<close>; otherwise the sequence is the moved one. So a new pair
  lies \<open>HORIZONTAL_PIPE_SPACING\<close> after its predecessor when it is created (in a frame
  and in the constructor), moving two pairs keeps their distance, and from a level
  whose consecutive pairs are that far apart every number of frames returns a level of
  3 pairs that are again that far apart.
\<close>

theorem movePipes_spacing:
  assumes "length (pipes lvl) = 3"
  shows "movePipes rnd lvl k =
           (if right (topPipe (hd (pipes lvl))) - PIPE_SPEED \<le> 0 then
              Inr (lvl\<lparr>pipes := tl (map shiftPipe (pipes lvl)) @
                     [fst (randomPipe rnd (dimensions lvl)
                        (left (topPipe (last (tl (map shiftPipe (pipes lvl)))))
                           + HORIZONTAL_PIPE_SPACING) k)]\<rparr>, Suc k)
            else Inr (lvl\<lparr>pipes := map shiftPipe (pipes lvl)\<rparr>, k))
       \<and> left (topPipe (shiftPipe p)) = left (topPipe p) - PIPE_SPEED
       \<and> right (topPipe (shiftPipe p)) = right (topPipe p) - PIPE_SPEED
       \<and> left (bottomPipe (shiftPipe p)) = left (bottomPipe p) - PIPE_SPEED
       \<and> right (bottomPipe (shiftPipe p)) = right (bottomPipe p) - PIPE_SPEED
       \<and> left (topPipe (fst (randomPipe rnd (dimensions lvl)
                  (left (topPipe (last (tl (map shiftPipe (pipes lvl)))))
                     + HORIZONTAL_PIPE_SPACING) k)))
           - left (topPipe (last (tl (map shiftPipe (pipes lvl))))) = HORIZONTAL_PIPE_SPACING
       \<and> left (topPipe (shiftPipe b)) - left (topPipe (shiftPipe a))
           = left (topPipe b) - left (topPipe a)
       \<and> spaced (pipes (fst (Level_constructor rnd dims k)))
       \<and> (spaced (pipes lvl) \<longrightarrow>
            (\<exists>lvl' k'. frames n rnd lvl k = Inr (lvl', k') \<and> length (pipes lvl') = 3
               \<and> spaced (pipes lvl')))"
proof -
  from assms obtain x y z where ps: "pipes lvl = [x, y, z]"
    by (auto simp: length_Suc_conv numeral_3_eq_3)
  have step: "movePipes rnd lvl k =
           (if right (topPipe (hd (pipes lvl))) - PIPE_SPEED \<le> 0 then
              Inr (lvl\<lparr>pipes := tl (map shiftPipe (pipes lvl)) @
                     [fst (randomPipe rnd (dimensions lvl)
                        (left (topPipe (last (tl (map shiftPipe (pipes lvl)))))
                           + HORIZONTAL_PIPE_SPACING) k)]\<rparr>, Suc k)
            else Inr (lvl\<lparr>pipes := map shiftPipe (pipes lvl)\<rparr>, k))"
    by (simp add: movePipes_three [OF assms] ps shiftPipe_edges)
  have inv: "spaced (pipes lvl) \<longrightarrow>
            (\<exists>lvl' k'. frames n rnd lvl k = Inr (lvl', k') \<and> length (pipes lvl') = 3
               \<and> spaced (pipes lvl'))"
    using frames_inv [OF assms, of n rnd k] by blast
  show ?thesis
    using step inv
    by (simp only: shiftPipe_edges randomPipe_left constructor_spaced) simp
qed

theorem movePipes_spacing_witness:
  "length (pipes
     \<lparr>dimensions = \<lparr>width = 480, height = 640\<rparr>,
        pipes = [fst (randomPipe (\<lambda>n. 1 / 2) \<lparr>width = 480, height = 640\<rparr> (- 48) 0),
                 fst (randomPipe (\<lambda>n. 1 / 2) \<lparr>width = 480, height = 640\<rparr> 172 0),
                 fst (randomPipe (\<lambda>n. 1 / 2) \<lparr>width = 480, height = 640\<rparr> 392 0)],
        backgroundQueue = [], appendBackground = False\<rparr>) = 3
   \<and> spaced (pipes
     \<lparr>dimensions = \<lparr>width = 480, height = 640\<rparr>,
        pipes = [fst (randomPipe (\<lambda>n. 1 / 2) \<lparr>width = 480, height = 640\<rparr> (- 48) 0),
                 fst (randomPipe (\<lambda>n. 1 / 2) \<lparr>width = 480, height = 640\<rparr> 172 0),
                 fst (randomPipe (\<lambda>n. 1 / 2) \<lparr>width = 480, height = 640\<rparr> 392 0)],
        backgroundQueue = [], appendBackground = False\<rparr>)
   \<and> movePipes (\<lambda>n. 1 / 2)
       \<lparr>dimensions = \<lparr>width = 480, height = 640\<rparr>,
        pipes = [fst (randomPipe (\<lambda>n. 1 / 2) \<lparr>width = 480, height = 640\<rparr> (- 48) 0),
                 fst (randomPipe (\<lambda>n. 1 / 2) \<lparr>width = 480, height = 640\<rparr> 172 0),
                 fst (randomPipe (\<lambda>n. 1 / 2) \<lparr>width = 480, height = 640\<rparr> 392 0)],
        backgroundQueue = [], appendBackground = False\<rparr> 7
     = Inr (\<lparr>dimensions = \<lparr>width = 480, height = 640\<rparr>,
        pipes = [fst (randomPipe (\<lambda>n. 1 / 2) \<lparr>width = 480, height = 640\<rparr> (- 48) 0),
                 fst (randomPipe (\<lambda>n. 1 / 2) \<lparr>width = 480, height = 640\<rparr> 172 0),
                 fst (randomPipe (\<lambda>n. 1 / 2) \<lparr>width = 480, height = 640\<rparr> 392 0)],
        backgroundQueue = [], appendBackground = False\<rparr>
       \<lparr>pipes := [fst (randomPipe (\<lambda>n. 1 / 2) \<lparr>width = 480, height = 640\<rparr> 170 0),
                 fst (randomPipe (\<lambda>n. 1 / 2) \<lparr>width = 480, height = 640\<rparr> 390 0),
                 fst (randomPipe (\<lambda>n. 1 / 2) \<lparr>width = 480, height = 640\<rparr> 610 0)]\<rparr>, 8)
   \<and> (\<exists>lvl' k'. frames 5 (\<lambda>n. 1 / 2)
       \<lparr>dimensions = \<lparr>width = 480, height = 640\<rparr>,
        pipes = [fst (randomPipe (\<lambda>n. 1 / 2) \<lparr>width = 480, height = 640\<rparr> (- 48) 0),
                 fst (randomPipe (\<lambda>n. 1 / 2) \<lparr>width = 480, height = 640\<rparr> 172 0),
                 fst (randomPipe (\<lambda>n. 1 / 2) \<lparr>width = 480, height = 640\<rparr> 392 0)],
        backgroundQueue = [], appendBackground = False\<rparr> 7 = Inr (lvl', k') \<and> length (pipes lvl') = 3 \<and> spaced (pipes lvl'))"
proof -
  have l: "length (pipes
     \<lparr>dimensions = \<lparr>width = 480, height = 640\<rparr>,
        pipes = [fst (randomPipe (\<lambda>n. 1 / 2) \<lparr>width = 480, height = 640\<rparr> (- 48) 0),
                 fst (randomPipe (\<lambda>n. 1 / 2) \<lparr>width = 480, height = 640\<rparr> 172 0),
                 fst (randomPipe (\<lambda>n. 1 / 2) \<lparr>width = 480, height = 640\<rparr> 392 0)],
        backgroundQueue = [], appendBackground = False\<rparr>) = 3"
    by simp
  have s: "spaced (pipes
     \<lparr>dimensions = \<lparr>width = 480, height = 640\<rparr>,
        pipes = [fst (randomPipe (\<lambda>n. 1 / 2) \<lparr>width = 480, height = 640\<rparr> (- 48) 0),
                 fst (randomPipe (\<lambda>n. 1 / 2) \<lparr>width = 480, height = 640\<rparr> 172 0),
                 fst (randomPipe (\<lambda>n. 1 / 2) \<lparr>width = 480, height = 640\<rparr> 392 0)],
        backgroundQueue = [], appendBackground = False\<rparr>)"
    by (simp add: randomPipe_def Let_def Math_random_def CONSTANTS_defs)
  show ?thesis
    using l s movePipes_spacing [OF l, of "\<lambda>n. 1 / 2" 7 undefined undefined undefined undefined 5]
    by (simp add: randomPipe_def Let_def Math_random_def shiftPipe_def CONSTANTS_defs)
qed

section \<open>Collision\<close>

text \<open>
  Claim C5. \<^verbatim>\<open>collidesWith(capyBound)\<close> returns true exactly when the top or the
  bottom sub-pipe of some pair of the level overlaps the bounds, where two rectangles
  overlap unless one lies strictly to the left or right of, or strictly above or below,
  the other (so touching edges overlap). In particular it returns true for the bounds
  \<open>{left: 100, right: 145, top: 0, bottom: 33}\<close> when some pair has the top sub-pipe
  \<open>{left: 90, right: 140, top: 0, bottom: 50}\<close>.
\<close>

theorem collidesWith_overlap:
  "(fst (collidesWith b lvl) \<longleftrightarrow>
      (\<exists>p \<in> set (pipes lvl). spec_overlaps (topPipe p) b \<or> spec_overlaps (bottomPipe p) b))
   \<and> (p \<in> set (pipes lvl) \<and> topPipe p = \<lparr>left = 90, right = 140, top_edge = 0, bottom = 50\<rparr>
        \<longrightarrow> fst (collidesWith \<lparr>left = 100, right = 145, top_edge = 0, bottom = 33\<rparr> lvl))"
proof (intro conjI impI)
  show "fst (collidesWith b lvl) \<longleftrightarrow>
      (\<exists>p \<in> set (pipes lvl). spec_overlaps (topPipe p) b \<or> spec_overlaps (bottomPipe p) b)"
    by (simp add: collidesWith_eq overlap_spec)
next
  assume p: "p \<in> set (pipes lvl) \<and> topPipe p = \<lparr>left = 90, right = 140, top_edge = 0, bottom = 50\<rparr>"
  then have "overlap (topPipe p) \<lparr>left = 100, right = 145, top_edge = 0, bottom = 33\<rparr>"
    by (simp add: overlap_def)
  with p show "fst (collidesWith \<lparr>left = 100, right = 145, top_edge = 0, bottom = 33\<rparr> lvl)"
    unfolding collidesWith_eq fst_conv by blast
qed

theorem collidesWith_overlap_witness:
  "fst (collidesWith \<lparr>left = 100, right = 145, top_edge = 0, bottom = 33\<rparr>
     \<lparr>dimensions = \<lparr>width = 480, height = 640\<rparr>,
       pipes = [\<lparr>topPipe = \<lparr>left = 90, right = 140, top_edge = 0, bottom = 50\<rparr>,
                 bottomPipe = \<lparr>left = 90, right = 140, top_edge = 200, bottom = 640\<rparr>,
                 passed = False\<rparr>],
       backgroundQueue = [], appendBackground = False\<rparr>)"
  using collidesWith_overlap
    [of "\<lparr>left = 100, right = 145, top_edge = 0, bottom = 33\<rparr>"
        "\<lparr>dimensions = \<lparr>width = 480, height = 640\<rparr>,
          pipes = [\<lparr>topPipe = \<lparr>left = 90, right = 140, top_edge = 0, bottom = 50\<rparr>,
                    bottomPipe = \<lparr>left = 90, right = 140, top_edge = 200, bottom = 640\<rparr>,
                    passed = False\<rparr>],
          backgroundQueue = [], appendBackground = False\<rparr>"
        "\<lparr>topPipe = \<lparr>left = 90, right = 140, top_edge = 0, bottom = 50\<rparr>,
          bottomPipe = \<lparr>left = 90, right = 140, top_edge = 200, bottom = 640\<rparr>,
          passed = False\<rparr>", THEN conjunct2]
  by simp

text \<open>
  Claim C10. \<^verbatim>\<open>collidesWith(capyBound)\<close> is a query: the level it leaves is the
  level it was given (the same pairs, edges and passed flags), and its result depends
  on the level only through the rectangles of the pairs, so two levels with the same
  rectangles give the same result. It takes no cursor of the random source: it draws no
  random number.
\<close>

theorem collidesWith_pure:
  "snd (collidesWith b lvl) = lvl
   \<and> (map (\<lambda>p. (topPipe p, bottomPipe p)) (pipes lvl)
        = map (\<lambda>p. (topPipe p, bottomPipe p)) (pipes lvl2)
      \<longrightarrow> fst (collidesWith b lvl) = fst (collidesWith b lvl2))"
proof (intro conjI impI)
  show "snd (collidesWith b lvl) = lvl"
    by (simp add: collidesWith_eq)
next
  assume eq: "map (\<lambda>p. (topPipe p, bottomPipe p)) (pipes lvl)
                = map (\<lambda>p. (topPipe p, bottomPipe p)) (pipes lvl2)"
  have key: "fst (collidesWith b l) =
               (\<exists>r \<in> set (map (\<lambda>p. (topPipe p, bottomPipe p)) (pipes l)).
                   overlap (fst r) b \<or> overlap (snd r) b)" for l
    by (simp add: collidesWith_eq)
  show "fst (collidesWith b lvl) = fst (collidesWith b lvl2)"
    by (simp only: key eq)
qed

theorem collidesWith_pure_witness:
  "fst (collidesWith \<lparr>left = 100, right = 145, top_edge = 0, bottom = 33\<rparr>
     \<lparr>dimensions = \<lparr>width = 480, height = 640\<rparr>,
       pipes = [\<lparr>topPipe = \<lparr>left = 90, right = 140, top_edge = 0, bottom = 50\<rparr>,
                 bottomPipe = \<lparr>left = 90, right = 140, top_edge = 200, bottom = 640\<rparr>,
                 passed = False\<rparr>],
       backgroundQueue = [], appendBackground = False\<rparr>)
   = fst (collidesWith \<lparr>left = 100, right = 145, top_edge = 0, bottom = 33\<rparr>
     \<lparr>dimensions = \<lparr>width = 1, height = 2\<rparr>,
       pipes = [\<lparr>topPipe = \<lparr>left = 90, right = 140, top_edge = 0, bottom = 50\<rparr>,
                 bottomPipe = \<lparr>left = 90, right = 140, top_edge = 200, bottom = 640\<rparr>,
                 passed = True\<rparr>],
       backgroundQueue = [3], appendBackground = True\<rparr>)"
  using collidesWith_pure
    [of "\<lparr>left = 100, right = 145, top_edge = 0, bottom = 33\<rparr>"
        "\<lparr>dimensions = \<lparr>width = 480, height = 640\<rparr>,
          pipes = [\<lparr>topPipe = \<lparr>left = 90, right = 140, top_edge = 0, bottom = 50\<rparr>,
                    bottomPipe = \<lparr>left = 90, right = 140, top_edge = 200, bottom = 640\<rparr>,
                    passed = False\<rparr>],
          backgroundQueue = [], appendBackground = False\<rparr>"
        "\<lparr>dimensions = \<lparr>width = 1, height = 2\<rparr>,
          pipes = [\<lparr>topPipe = \<lparr>left = 90, right = 140, top_edge = 0, bottom = 50\<rparr>,
                    bottomPipe = \<lparr>left = 90, right = 140, top_edge = 200, bottom = 640\<rparr>,
                    passed = True\<rparr>],
          backgroundQueue = [3], appendBackground = True\<rparr>"]
  by simp

section \<open>Passed pipes\<close>

text \<open>
  Claim C6. \<^verbatim>\<open>passedPipe(capy, callback)\<close> marks as passed every pair whose right
  edge is strictly left of the left edge of the bounds, and runs the callback once for
  each such pair that was not yet marked, and for no other pair. A pair that is marked
  is left alone by the callback of the iteration whatever the bounds are, and moving
  the pipes keeps the mark; so a second call with any bounds runs the callback only for
  the pairs that the first call did not mark, and a second call with the same bounds
  runs it not at all and changes nothing.
\<close>

theorem passedPipe_once:
  "passedPipe cb callback lvl s =
     (lvl\<lparr>pipes := map (\<lambda>p. if right (topPipe p) < left cb then p\<lparr>passed := True\<rparr> else p)
                        (pipes lvl)\<rparr>,
      (callback ^^ length (filter (\<lambda>p. right (topPipe p) < left cb \<and> \<not> passed p) (pipes lvl))) s)
   \<and> (passed p \<longrightarrow> passedPipe_each cb2 callback p s2 = (p, s2))
   \<and> passed (shiftPipe p) = passed p
   \<and> snd (passedPipe cb2 callback (fst (passedPipe cb callback lvl s)) s2)
       = (callback ^^ length (filter (\<lambda>p. right (topPipe p) < left cb2
                                          \<and> \<not> right (topPipe p) < left cb \<and> \<not> passed p)
                                    (pipes lvl))) s2
   \<and> passedPipe cb callback (fst (passedPipe cb callback lvl s)) s2
       = (fst (passedPipe cb callback lvl s), s2)"
proof -
  have each: "passed p \<longrightarrow> passedPipe_each cb2 callback p s2 = (p, s2)"
    by (simp add: passedPipe_each_def)
  have flt: "filter (\<lambda>p. right (topPipe p) < left cb2 \<and> \<not> passed p)
               (map (\<lambda>p. if right (topPipe p) < left cb then p\<lparr>passed := True\<rparr> else p) ps)
             = map (\<lambda>p. if right (topPipe p) < left cb then p\<lparr>passed := True\<rparr> else p)
                 (filter (\<lambda>p. right (topPipe p) < left cb2
                            \<and> \<not> right (topPipe p) < left cb \<and> \<not> passed p) ps)" for ps
    by (induction ps) auto
  have twice: "snd (passedPipe cb2 callback (fst (passedPipe cb callback lvl s)) s2)
       = (callback ^^ length (filter (\<lambda>p. right (topPipe p) < left cb2
                                          \<and> \<not> right (topPipe p) < left cb \<and> \<not> passed p)
                                    (pipes lvl))) s2"
    by (simp add: passedPipe_eq flt)
  have none: "filter (\<lambda>p. right (topPipe p) < left cb \<and> \<not> passed p)
               (map (\<lambda>p. if right (topPipe p) < left cb then p\<lparr>passed := True\<rparr> else p) ps)
             = []" for ps
    by (induction ps) auto
  have idem: "map (\<lambda>p. if right (topPipe p) < left cb then p\<lparr>passed := True\<rparr> else p)
               (map (\<lambda>p. if right (topPipe p) < left cb then p\<lparr>passed := True\<rparr> else p) ps)
             = map (\<lambda>p. if right (topPipe p) < left cb then p\<lparr>passed := True\<rparr> else p) ps" for ps
    by (induction ps) auto
  have same: "passedPipe cb callback (fst (passedPipe cb callback lvl s)) s2
       = (fst (passedPipe cb callback lvl s), s2)"
    by (simp add: passedPipe_eq none idem)
  show ?thesis
    using each twice same by (simp add: passedPipe_eq shiftPipe_edges)
qed

theorem passedPipe_once_witness:
  "passedPipe_each \<lparr>left = 100, right = 145, top_edge = 0, bottom = 33\<rparr> Suc
     \<lparr>topPipe = \<lparr>left = 40, right = 90, top_edge = 0, bottom = 50\<rparr>,
       bottomPipe = \<lparr>left = 40, right = 90, top_edge = 200, bottom = 640\<rparr>,
       passed = True\<rparr> (4::nat)
   = (\<lparr>topPipe = \<lparr>left = 40, right = 90, top_edge = 0, bottom = 50\<rparr>,
       bottomPipe = \<lparr>left = 40, right = 90, top_edge = 200, bottom = 640\<rparr>,
       passed = True\<rparr>, 4)
   \<and> snd (passedPipe \<lparr>left = 100, right = 145, top_edge = 0, bottom = 33\<rparr> Suc
       \<lparr>dimensions = \<lparr>width = 480, height = 640\<rparr>,
         pipes = [\<lparr>topPipe = \<lparr>left = 40, right = 90, top_edge = 0, bottom = 50\<rparr>,
                   bottomPipe = \<lparr>left = 40, right = 90, top_edge = 200, bottom = 640\<rparr>,
                   passed = False\<rparr>],
         backgroundQueue = [], appendBackground = False\<rparr> (4::nat)) = 5"
  using passedPipe_once
    [of "\<lparr>left = 100, right = 145, top_edge = 0, bottom = 33\<rparr>" Suc
        "\<lparr>dimensions = \<lparr>width = 480, height = 640\<rparr>,
          pipes = [\<lparr>topPipe = \<lparr>left = 40, right = 90, top_edge = 0, bottom = 50\<rparr>,
                    bottomPipe = \<lparr>left = 40, right = 90, top_edge = 200, bottom = 640\<rparr>,
                    passed = False\<rparr>],
          backgroundQueue = [], appendBackground = False\<rparr>"
        "4::nat"
        "\<lparr>topPipe = \<lparr>left = 40, right = 90, top_edge = 0, bottom = 50\<rparr>,
          bottomPipe = \<lparr>left = 40, right = 90, top_edge = 200, bottom = 640\<rparr>,
          passed = True\<rparr>"
        "\<lparr>left = 100, right = 145, top_edge = 0, bottom = 33\<rparr>" "4::nat"]
  by simp

section \<open>The obstacle generator\<close>

lemma dbl_le_nat:
  assumes "0 \<le> x" and "x \<le> real n" and "n < 2 ^ 53"
  shows "dbl x \<le> real n"
  using dbl_mono [OF assms(1) assms(2)] dbl_nat [OF assms(3)] by simp

lemma dbl_ge_nat:
  assumes "real n \<le> x" and "n < 2 ^ 53"
  shows "real n \<le> dbl x"
  using dbl_mono [of "real n" x] assms dbl_nat [OF assms(2)] by simp

lemma dbl_numeral: "numeral w < (2::nat) ^ 53 \<Longrightarrow> dbl (numeral w) = numeral w"
  using dbl_nat [of "numeral w"] by simp

text \<open>
  Claim C4. For a random number in \<open>[0, 1)\<close> and a field whose height is a whole
  number of pixels (below \<open>2\<^sup>5\<^sup>3\<close>) and leaves room for the gap and the two edge
  buffers, the generated pair has its gap between the edge buffers: the top of the gap
  is at least \<open>EDGE_BUFFER\<close> and its bottom at most \<open>height - EDGE_BUFFER\<close>. The bottom
  of the gap is the top plus \<open>PIPE_GAP\<close> rounded to the nearest double, so the height
  of the gap differs from \<open>PIPE_GAP\<close> by at most \<open>(top + PIPE_GAP) / 2\<^sup>5\<^sup>3\<close>; it need
  not be equal to it. Both sub-pipes span \<open>[distance, distance + PIPE_WIDTH]\<close>
  horizontally, and the pair is not marked as passed.
\<close>

theorem randomPipe_gap:
  assumes "0 \<le> rnd k" and "rnd k < 1"
    and "height dims = real h" and "h < 2 ^ 53"
    and "0 \<le> height dims - 2 * EDGE_BUFFER - PIPE_GAP"
  shows "EDGE_BUFFER \<le> bottom (topPipe (fst (randomPipe rnd dims distance k)))
       \<and> top_edge (bottomPipe (fst (randomPipe rnd dims distance k))) \<le> height dims - EDGE_BUFFER
       \<and> top_edge (bottomPipe (fst (randomPipe rnd dims distance k)))
           = dbl (bottom (topPipe (fst (randomPipe rnd dims distance k))) + PIPE_GAP)
       \<and> \<bar>top_edge (bottomPipe (fst (randomPipe rnd dims distance k)))
            - bottom (topPipe (fst (randomPipe rnd dims distance k))) - PIPE_GAP\<bar>
           \<le> (bottom (topPipe (fst (randomPipe rnd dims distance k))) + PIPE_GAP) / 2 ^ 53
       \<and> left (topPipe (fst (randomPipe rnd dims distance k))) = distance
       \<and> right (topPipe (fst (randomPipe rnd dims distance k))) = distance + PIPE_WIDTH
       \<and> left (bottomPipe (fst (randomPipe rnd dims distance k))) = distance
       \<and> right (bottomPipe (fst (randomPipe rnd dims distance k))) = distance + PIPE_WIDTH
       \<and> passed (fst (randomPipe rnd dims distance k)) = False"
proof -
  define hr where "hr = height dims - 2 * EDGE_BUFFER - PIPE_GAP"
  define p where "p = dbl (rnd k * hr)"
  define t where "t = dbl (p + EDGE_BUFFER)"
  define g where "g = dbl (t + PIPE_GAP)"
  have h250: "250 \<le> h"
    using assms(3,5) by (simp add: CONSTANTS_defs)
  have hr: "hr = real (h - 250)"
    using h250 by (simp add: hr_def assms(3) CONSTANTS_defs)
  have hr0: "0 \<le> hr" using assms(5) by (simp add: hr_def)
  have m0: "0 \<le> rnd k * hr"
    using assms(1) hr0 by simp
  have "rnd k * hr \<le> 1 * hr"
    using assms(2) hr0 by (intro mult_right_mono) simp_all
  then have m1: "rnd k * hr \<le> real (h - 250)" by (simp add: hr)
  have p0: "0 \<le> p"
    unfolding p_def using m0 by (rule dbl_nonneg)
  have p1: "p \<le> real (h - 250)"
    unfolding p_def using m0 m1 by (rule dbl_le_nat) (use assms(4) in simp)
  have "real 50 \<le> dbl (p + EDGE_BUFFER)"
    using p0 by (intro dbl_ge_nat) (simp_all add: EDGE_BUFFER_def)
  then have t0: "50 \<le> t" by (simp add: t_def)
  have "dbl (p + EDGE_BUFFER) \<le> real (h - 200)"
    using p0 p1 h250 assms(4) by (intro dbl_le_nat) (simp_all add: EDGE_BUFFER_def)
  then have t1: "t \<le> real (h - 200)" by (simp add: t_def)
  have "dbl (t + PIPE_GAP) \<le> real (h - 50)"
    using t0 t1 h250 assms(4) by (intro dbl_le_nat) (simp_all add: PIPE_GAP_def)
  then have g1: "g \<le> height dims - EDGE_BUFFER"
    using h250 by (simp add: g_def assms(3) EDGE_BUFFER_def)
  have "\<bar>dbl (t + PIPE_GAP) - (t + PIPE_GAP)\<bar> \<le> (t + PIPE_GAP) / 2 ^ 53"
    using t0 by (intro dbl_error) (simp add: PIPE_GAP_def)
  then have err: "\<bar>g - t - PIPE_GAP\<bar> \<le> (t + PIPE_GAP) / 2 ^ 53"
    by (simp add: g_def algebra_simps)
  have tg: "bottom (topPipe (fst (randomPipe rnd dims distance k))) = t"
    "top_edge (bottomPipe (fst (randomPipe rnd dims distance k))) = g"
    by (simp_all add: randomPipe_gap_edges t_def g_def p_def hr_def)
  have rest: "left (topPipe (fst (randomPipe rnd dims distance k))) = distance"
    "right (topPipe (fst (randomPipe rnd dims distance k))) = distance + PIPE_WIDTH"
    "left (bottomPipe (fst (randomPipe rnd dims distance k))) = distance"
    "right (bottomPipe (fst (randomPipe rnd dims distance k))) = distance + PIPE_WIDTH"
    "passed (fst (randomPipe rnd dims distance k)) = False"
    by (simp_all add: randomPipe_def Math_random_def Let_def)
  from t0 g1 err show ?thesis
    unfolding tg rest by (simp add: g_def EDGE_BUFFER_def)
qed

theorem randomPipe_gap_witness:
  "(0::real) \<le> 1 / 2 \<and> (1::real) / 2 < 1
   \<and> 0 \<le> height \<lparr>width = 480, height = 640\<rparr> - 2 * EDGE_BUFFER - PIPE_GAP
   \<and> EDGE_BUFFER \<le> bottom (topPipe (fst (randomPipe (\<lambda>n. 1 / 2) \<lparr>width = 480, height = 640\<rparr> 600 0)))
   \<and> top_edge (bottomPipe (fst (randomPipe (\<lambda>n. 1 / 2) \<lparr>width = 480, height = 640\<rparr> 600 0)))
        \<le> height \<lparr>width = 480, height = 640\<rparr> - EDGE_BUFFER
   \<and> bottom (topPipe (fst (randomPipe (\<lambda>n. 1 / 2) \<lparr>width = 480, height = 640\<rparr> 600 0))) = 245
   \<and> top_edge (bottomPipe (fst (randomPipe (\<lambda>n. 1 / 2) \<lparr>width = 480, height = 640\<rparr> 600 0))) = 395"
proof -
  have a: "(0::real) \<le> (\<lambda>n::nat. 1 / 2) 0" "(\<lambda>n::nat. (1::real) / 2) 0 < 1" by simp_all
  have b: "height \<lparr>width = 480, height = 640\<rparr> = real 640" by simp
  have c: "(640::nat) < 2 ^ 53" by simp
  have d: "0 \<le> height \<lparr>width = 480, height = 640\<rparr> - 2 * EDGE_BUFFER - PIPE_GAP"
    by (simp add: CONSTANTS_defs)
  show ?thesis
    using randomPipe_gap [OF a b c d, of 600] d
    by (simp add: randomPipe_gap_edges CONSTANTS_defs dbl_numeral)
qed

text \<open>
  On the field \<open>480 \<times> 640\<close>, with the random number \<open>1297036692682703 / 2\<^sup>5\<^sup>3\<close>
  (about 0.144), the top of the gap is the double \<open>3735172940950405 / 2\<^sup>4\<^sup>5\<close> (about
  106.16) and its bottom the double \<open>2253207188568801 / 2\<^sup>4\<^sup>3\<close>: the sum of the top and
  150 lies halfway between two doubles and is rounded down, and the gap is
  \<open>150 - 2\<^sup>-\<^sup>4\<^sup>5\<close> high.
\<close>

theorem randomPipe_gap_counterexample:
  "(0::real) \<le> 1297036692682703 / 2 ^ 53 \<and> (1297036692682703::real) / 2 ^ 53 < 1
   \<and> 0 \<le> height \<lparr>width = 480, height = 640\<rparr> - 2 * EDGE_BUFFER - PIPE_GAP
   \<and> bottom (topPipe (fst (randomPipe (\<lambda>n. 1297036692682703 / 2 ^ 53)
         \<lparr>width = 480, height = 640\<rparr> 600 0))) = 3735172940950405 / 2 ^ 45
   \<and> top_edge (bottomPipe (fst (randomPipe (\<lambda>n. 1297036692682703 / 2 ^ 53)
         \<lparr>width = 480, height = 640\<rparr> 600 0))) = 2253207188568801 / 2 ^ 43
   \<and> top_edge (bottomPipe (fst (randomPipe (\<lambda>n. 1297036692682703 / 2 ^ 53)
         \<lparr>width = 480, height = 640\<rparr> 600 0)))
       - bottom (topPipe (fst (randomPipe (\<lambda>n. 1297036692682703 / 2 ^ 53)
         \<lparr>width = 480, height = 640\<rparr> 600 0))) = PIPE_GAP - 1 / 2 ^ 45
   \<and> top_edge (bottomPipe (fst (randomPipe (\<lambda>n. 1297036692682703 / 2 ^ 53)
         \<lparr>width = 480, height = 640\<rparr> 600 0)))
       - bottom (topPipe (fst (randomPipe (\<lambda>n. 1297036692682703 / 2 ^ 53)
         \<lparr>width = 480, height = 640\<rparr> 600 0))) \<noteq> PIPE_GAP"
proof -
  have p: "dbl (1297036692682703 / 2 ^ 53 * 390) = 7903817346035221 / 2 ^ 47"
    using dbl_binade [of 5 "1297036692682703 / 2 ^ 53 * 390"]
    by (simp add: round_even_def)
  have t: "dbl (7903817346035221 / 2 ^ 47 + 50) = 3735172940950405 / 2 ^ 45"
    using dbl_binade [of 6 "7903817346035221 / 2 ^ 47 + 50"]
    by (simp add: round_even_def)
  have g: "dbl (3735172940950405 / 2 ^ 45 + 150) = 2253207188568801 / 2 ^ 43"
    using dbl_binade [of 8 "3735172940950405 / 2 ^ 45 + 150"]
    by (simp add: round_even_def)
  have a: "1297036692682703 / 2 ^ 53
             * (height \<lparr>width = 480, height = 640\<rparr> - 2 * EDGE_BUFFER - PIPE_GAP)
           = 1297036692682703 / 2 ^ 53 * 390"
    by (simp add: CONSTANTS_defs)
  have tt: "bottom (topPipe (fst (randomPipe (\<lambda>n. 1297036692682703 / 2 ^ 53)
         \<lparr>width = 480, height = 640\<rparr> 600 0))) = 3735172940950405 / 2 ^ 45"
    unfolding randomPipe_gap_edges unfolding a unfolding p EDGE_BUFFER_def by (rule t)
  have gg: "top_edge (bottomPipe (fst (randomPipe (\<lambda>n. 1297036692682703 / 2 ^ 53)
         \<lparr>width = 480, height = 640\<rparr> 600 0))) = 2253207188568801 / 2 ^ 43"
    unfolding randomPipe_gap_edges unfolding a unfolding p EDGE_BUFFER_def unfolding t PIPE_GAP_def
    by (rule g)
  show ?thesis
    unfolding tt gg by (simp add: CONSTANTS_defs)
qed

text \<open>
  Claim C7. When \<open>PIPE_GAP + 2 * EDGE_BUFFER\<close> exceeds the height of the field, the
  constructor of the level checks nothing and fails in no way: whatever the random
  source returns, it returns a level of that field with 3 generated pairs, none of them
  passed, each reaching from the top edge 0 to the bottom edge of the field, after
  three draws.
\<close>

theorem Level_constructor_malformed:
  assumes "PIPE_GAP + 2 * EDGE_BUFFER > height dims"
  shows "dimensions (fst (Level_constructor rnd dims k)) = dims
     \<and> length (pipes (fst (Level_constructor rnd dims k))) = 3
     \<and> snd (Level_constructor rnd dims k) = k + 3
     \<and> (\<forall>p \<in> set (pipes (fst (Level_constructor rnd dims k))).
           passed p = False \<and> top_edge (topPipe p) = 0 \<and> bottom (bottomPipe p) = height dims)"
  by (simp add: Level_constructor_def randomPipe_def Math_random_def Let_def makeBackground_def)

theorem Level_constructor_malformed_witness:
  "PIPE_GAP + 2 * EDGE_BUFFER > height \<lparr>width = 480, height = 100\<rparr>
   \<and> length (pipes (fst (Level_constructor (\<lambda>n. 1 / 2) \<lparr>width = 480, height = 100\<rparr> 0))) = 3
   \<and> snd (Level_constructor (\<lambda>n. 1 / 2) \<lparr>width = 480, height = 100\<rparr> 0) = 3
   \<and> passed (hd (pipes (fst (Level_constructor (\<lambda>n. 1 / 2) \<lparr>width = 480, height = 100\<rparr> 0))))
       = False"
proof -
  have m: "PIPE_GAP + 2 * EDGE_BUFFER > height \<lparr>width = 480, height = 100\<rparr>"
    by (simp add: CONSTANTS_defs)
  show ?thesis
    using m Level_constructor_malformed [of "\<lparr>width = 480, height = 100\<rparr>" "\<lambda>n. 1 / 2" 0, OF m]
    by (simp add: constructor_pipes)
qed

text \<open>
  The field \<open>480 \<times> 100\<close> is too low for the gap and the two edge buffers. With the
  random source at 0 the constructor returns this level: no error, and three pairs
  whose bottom sub-pipe starts at 200, below the field and below its own bottom edge
  at 100.
\<close>

theorem Level_constructor_malformed_counterexample:
  "PIPE_GAP + 2 * EDGE_BUFFER > height \<lparr>width = 480, height = 100\<rparr>
   \<and> Level_constructor (\<lambda>n. 0) \<lparr>width = 480, height = 100\<rparr> 0 =
       (\<lparr>dimensions = \<lparr>width = 480, height = 100\<rparr>,
          pipes =
            [\<lparr>topPipe = \<lparr>left = 600, right = 650, top_edge = 0, bottom = 50\<rparr>,
               bottomPipe = \<lparr>left = 600, right = 650, top_edge = 200, bottom = 100\<rparr>,
               passed = False\<rparr>,
             \<lparr>topPipe = \<lparr>left = 820, right = 870, top_edge = 0, bottom = 50\<rparr>,
               bottomPipe = \<lparr>left = 820, right = 870, top_edge = 200, bottom = 100\<rparr>,
               passed = False\<rparr>,
             \<lparr>topPipe = \<lparr>left = 1040, right = 1090, top_edge = 0, bottom = 50\<rparr>,
               bottomPipe = \<lparr>left = 1040, right = 1090, top_edge = 200, bottom = 100\<rparr>,
               passed = False\<rparr>],
          backgroundQueue = [- 1440], appendBackground = True\<rparr>, 3)"
  by (simp add: Level_constructor_def randomPipe_def Math_random_def Let_def makeBackground_def
      CONSTANTS_defs dbl_zero dbl_numeral)

section \<open>The capy\<close>

lemma moveCapy_vel: "\<bar>vel (moveCapy c)\<bar> \<le> TERMINAL_VEL"
  by (simp add: moveCapy_def Let_def TERMINAL_VEL_def)

lemma flap_vel: "\<bar>vel (flap c)\<bar> \<le> TERMINAL_VEL"
  by (simp add: flap_def CONST_defs)

lemma calls_vel:
  "\<bar>vel c\<bar> \<le> TERMINAL_VEL \<Longrightarrow> \<bar>vel (calls xs c)\<bar> \<le> TERMINAL_VEL"
proof (induction xs arbitrary: c)
  case Nil
  then show ?case by simp
next
  case (Cons x xs)
  have "\<bar>vel (call x c)\<bar> \<le> TERMINAL_VEL"
    by (cases x) (simp_all add: moveCapy_vel flap_vel)
  then show ?case by (simp add: Cons.IH)
qed

text \<open>
  Claim C1. Starting from a new capy, whose velocity is 0, after every call of any
  sequence of calls of \<^verbatim>\<open>moveCapy()\<close> and \<^verbatim>\<open>flap()\<close> (after the first \<open>n\<close> calls
  of the sequence, for every \<open>n\<close>) the absolute value of the velocity is at most
  \<open>TERMINAL_VEL\<close>, which is 12.
\<close>

theorem velocity_clamp:
  "\<bar>vel (calls (take n cs) (Capy_constructor dims))\<bar> \<le> TERMINAL_VEL"
  by (rule calls_vel) (simp add: Capy_constructor_def TERMINAL_VEL_def)


section \<open>Game over\<close>

lemma collidesWith_far:
  assumes "\<forall>p \<in> set (pipes lvl). right b < left (topPipe p) \<and> right b < left (bottomPipe p)"
  shows "collidesWith b lvl = (False, lvl)"
  using assms by (auto simp: collidesWith_eq overlap_def)

lemma passedPipe_none:
  assumes "\<forall>p \<in> set (pipes lvl). \<not> right (topPipe p) < left b"
  shows "passedPipe b callback lvl s = (lvl, s)"
proof -
  have m: "map (\<lambda>p. if right (topPipe p) < left b then p\<lparr>passed := True\<rparr> else p) (pipes lvl)
             = pipes lvl"
    using assms by (intro map_idI) simp
  have f: "filter (\<lambda>p. right (topPipe p) < left b \<and> \<not> passed p) (pipes lvl) = []"
    using assms by (simp add: filter_empty_conv)
  show ?thesis
    by (simp add: passedPipe_eq m f)
qed

lemma fresh_pipes:
  assumes "p \<in> set (pipes (fst (Level_constructor rnd dims k)))"
  shows "width dims + 120 \<le> left (topPipe p) \<and> left (bottomPipe p) = left (topPipe p)
       \<and> right (topPipe p) = left (topPipe p) + 50 \<and> passed p = False"
  using assms
  by (auto simp: constructor_pipes randomPipe_def Math_random_def Let_def CONSTANTS_defs)

lemma animate_fresh:
  assumes P: "pipes (level G) = pipes (fst (Level_constructor rnd D k0))"
    and x: "capy_x (capy G) = width D / 3" and y: "capy_y (capy G) = height D / 2"
    and d: "dimensionsC (capy G) = D" and w: "0 \<le> width D" and h: "66 \<le> height D"
  shows "animate (Suc n) rnd G k =
           Some (Inr (G\<lparr>level := (level G)\<lparr>pipes := map shiftPipe (pipes (level G))\<rparr>\<rparr>, k))"
proof -
  let ?L1 = "(level G)\<lparr>pipes := map shiftPipe (pipes (level G))\<rparr>"
  have len: "length (pipes (level G)) = 3"
    by (simp add: P constructor_pipes)
  have front: "\<not> right (topPipe (hd (map shiftPipe (pipes (level G))))) \<le> 0"
    using w
    by (simp add: P constructor_pipes randomPipe_def Math_random_def Let_def shiftPipe_def
        CONSTANTS_defs)
  have mv: "Level_animate rnd (level G) k = Inr (?L1, k)"
    using front by (simp add: Level_animate_def movePipes_three [OF len])
  have far: "\<forall>p \<in> set (pipes ?L1). right (bounds (capy G)) < left (topPipe p)
                \<and> right (bounds (capy G)) < left (bottomPipe p)"
  proof
    fix p assume "p \<in> set (pipes ?L1)"
    then obtain q where q: "q \<in> set (pipes (fst (Level_constructor rnd D k0)))"
      and p: "p = shiftPipe q"
      by (auto simp: P)
    from fresh_pipes [OF q] w
    show "right (bounds (capy G)) < left (topPipe p) \<and> right (bounds (capy G)) < left (bottomPipe p)"
      by (simp add: p shiftPipe_edges bounds_def x CAPY_WIDTH_def PIPE_SPEED_def)
  qed
  have np: "\<forall>p \<in> set (pipes ?L1). \<not> right (topPipe p) < left (bounds (capy G))"
  proof
    fix p assume "p \<in> set (pipes ?L1)"
    then obtain q where q: "q \<in> set (pipes (fst (Level_constructor rnd D k0)))"
      and p: "p = shiftPipe q"
      by (auto simp: P)
    from fresh_pipes [OF q] w
    show "\<not> right (topPipe p) < left (bounds (capy G))"
      by (simp add: p shiftPipe_edges bounds_def x PIPE_SPEED_def)
  qed
  have oob: "\<not> outOfBounds (capy G)"
    using h by (simp add: outOfBounds_def y d CAPY_HEIGHT_def)
  have go: "gameOver (G\<lparr>level := ?L1\<rparr>) = (False, G\<lparr>level := ?L1\<rparr>)"
    using oob by (simp add: gameOver_def collidesWith_far [OF far])
  show ?thesis
    by (simp add: mv go passedPipe_none [OF np])
qed

text \<open>
  Claim C8. Take a game in any state, with any score, and a frame \<^verbatim>\<open>animate()\<close> in
  which, after the pipes have moved, the game is over. If the field has a width of at
  least 0 and a height of at least 66, twice the height of the capy, so that the new
  capy in the middle of the field is not itself out of bounds, then with fuel for the
  three nested calls the frame returns normally, after three draws of the random
  source, in a state with score 0, not running, a level of the 3 pairs that the
  constructor has just generated (moved by the one frame that the restart runs), none
  of them passed, a new capy (with its sprite counter at 1 if the restart had to start
  the background loop), and one more alert, of the old score. The query for passed
  pipes on that state leaves the level and the score 0 as they are.
\<close>

theorem game_over_resets:
  assumes "0 \<le> width (dimensionsG g)" and "66 \<le> height (dimensionsG g)"
    and "Level_animate rnd (level g) k = Inr (lvl1, k1)"
    and "fst (gameOver (g\<lparr>level := lvl1\<rparr>))"
  shows "\<exists>g'. animate (n + 3) rnd g k = Some (Inr (g', k1 + 3))
     \<and> score g' = 0 \<and> running g' = False
     \<and> dimensions (level g') = dimensionsG g
     \<and> pipes (level g') = map shiftPipe (pipes (fst (Level_constructor rnd (dimensionsG g) k1)))
     \<and> length (pipes (level g')) = 3
     \<and> (\<forall>p \<in> set (pipes (level g')). passed p = False)
     \<and> capy g' = (if backgroundRunning g then Capy_constructor (dimensionsG g)
                   else (Capy_constructor (dimensionsG g))\<lparr>capyCounter := 1\<rparr>)
     \<and> alerts g' = alerts g @ [score g]
     \<and> passedPipe (bounds (capy g')) (\<lambda>s. s + 1) (level g') (score g') = (level g', 0)"
proof -
  obtain dG lv cp sc rn br al where g:
    "g = \<lparr>dimensionsG = dG, level = lv, capy = cp, score = sc, running = rn,
           backgroundRunning = br, alerts = al\<rparr>"
    by (cases g)
  define Lf where "Lf = fst (Level_constructor rnd dG k1)"
  define G5 where "G5 =
    \<lparr>dimensionsG = dG,
      level = (if br then Lf else Lf\<lparr>backgroundQueue := [- 1441, 479]\<rparr>),
      capy = (if br then Capy_constructor dG else (Capy_constructor dG)\<lparr>capyCounter := 1\<rparr>),
      score = 0, running = False, backgroundRunning = True, alerts = al @ [sc]\<rparr>"
  have w: "0 \<le> width dG" and h: "66 \<le> height dG"
    using assms(1,2) by (simp_all add: g)
  have go: "gameOver (g\<lparr>level := lvl1\<rparr>) = (True, g\<lparr>level := lvl1\<rparr>)"
    using assms(4) by (simp add: gameOver_def collidesWith_eq)
  have lc: "Level_constructor rnd dG k1 = (Lf, k1 + 3)"
    by (simp add: Lf_def Level_constructor_def randomPipe_def Math_random_def Let_def
        makeBackground_def)
  have Lf_bg: "backgroundQueue Lf = [- 1440]" "appendBackground Lf = True"
    by (simp_all add: Lf_def Level_constructor_def randomPipe_def Math_random_def Let_def
        makeBackground_def)
  have bg: "animateBackground Lf = Inr (Lf\<lparr>backgroundQueue := [- 1441, 479]\<rparr>)"
    by (simp add: animateBackground_def moveAnimatedBackground_def Lf_bg makeBackground_def
        BACKGROUND_SPEED_def)
  have dc: "drawCapy (Capy_constructor dG) = Inr ((Capy_constructor dG)\<lparr>capyCounter := 1\<rparr>)"
    by (simp add: drawCapy_def Capy_constructor_def ANIMATED_FLAP_SPEED_def)
  have rs: "restart (Suc (Suc n)) rnd (g\<lparr>level := lvl1, alerts := alerts g @ [score g]\<rparr>) k1
              = animate (Suc n) rnd G5 (k1 + 3)"
    by (simp add: g lc bg dc animateLevelBackground_def G5_def del: animate.simps)
  have P: "pipes (level G5) = pipes (fst (Level_constructor rnd dG k1))"
    by (simp add: G5_def Lf_def)
  have fr: "animate (Suc n) rnd G5 (k1 + 3) =
              Some (Inr (G5\<lparr>level := (level G5)\<lparr>pipes := map shiftPipe (pipes (level G5))\<rparr>\<rparr>,
                         k1 + 3))"
    by (rule animate_fresh [OF P _ _ _ w h])
       (simp_all add: G5_def Capy_constructor_def)
  define G6 where "G6 = G5\<lparr>level := (level G5)\<lparr>pipes := map shiftPipe (pipes (level G5))\<rparr>\<rparr>"
  have pipes6: "pipes (level G6) = map shiftPipe (pipes (fst (Level_constructor rnd dG k1)))"
    by (simp add: G6_def P)
  have np: "\<forall>p \<in> set (pipes (level G6)). \<not> right (topPipe p) < left (bounds (capy G6))"
  proof
    fix p assume "p \<in> set (pipes (level G6))"
    then obtain q where q: "q \<in> set (pipes (fst (Level_constructor rnd dG k1)))"
      and p: "p = shiftPipe q"
      by (auto simp: pipes6)
    from fresh_pipes [OF q] w
    show "\<not> right (topPipe p) < left (bounds (capy G6))"
      by (simp add: p shiftPipe_edges bounds_def G6_def G5_def Capy_constructor_def PIPE_SPEED_def)
  qed
  have unpassed: "\<forall>p \<in> set (pipes (level G6)). passed p = False"
  proof
    fix p assume "p \<in> set (pipes (level G6))"
    then obtain q where q: "q \<in> set (pipes (fst (Level_constructor rnd dG k1)))"
      and p: "p = shiftPipe q"
      by (auto simp: pipes6)
    from fresh_pipes [OF q] show "passed p = False"
      by (simp add: p shiftPipe_edges)
  qed
  have pp: "passedPipe (bounds (capy G6)) callback (level G6) s = (level G6, s)" for callback s
    by (rule passedPipe_none [OF np])
  have "animate (Suc (Suc (Suc n))) rnd g k =
          (case restart (Suc (Suc n)) rnd (g\<lparr>level := lvl1, alerts := alerts g @ [score g]\<rparr>) k1 of
             None \<Rightarrow> None
           | Some (Inl e) \<Rightarrow> Some (Inl e)
           | Some (Inr (g2, k2)) \<Rightarrow>
               let (lvl3, score3) =
                     passedPipe (bounds (capy g2)) (\<lambda>s. s + 1) (level g2) (score g2)
               in Some (Inr (g2\<lparr>level := lvl3, score := score3\<rparr>, k2)))"
    by (subst animate.simps(2)) (simp add: assms(3) go del: animate.simps restart.simps)
  also have "\<dots> = Some (Inr (G6, k1 + 3))"
    unfolding rs fr G6_def [symmetric] by (simp add: pp)
  finally have run: "animate (n + 3) rnd g k = Some (Inr (G6, k1 + 3))"
    by (simp add: numeral_3_eq_3)
  have "score G6 = 0" "running G6 = False" "dimensions (level G6) = dimensionsG g"
    "length (pipes (level G6)) = 3"
    "capy G6 = (if backgroundRunning g then Capy_constructor (dimensionsG g)
                else (Capy_constructor (dimensionsG g))\<lparr>capyCounter := 1\<rparr>)"
    "alerts G6 = alerts g @ [score g]"
    "pipes (level G6) = map shiftPipe (pipes (fst (Level_constructor rnd (dimensionsG g) k1)))"
    by (simp_all add: G6_def G5_def g Lf_def constructor_pipes Level_constructor_def
        randomPipe_def Math_random_def Let_def makeBackground_def)
  with run unpassed pp [of "\<lambda>s. s + 1" "score G6"] show ?thesis
    by (intro exI [of _ G6]) simp
qed

theorem game_over_resets_witness:
  "\<exists>g'. animate 3 (\<lambda>n. 1 / 2)
          \<lparr>dimensionsG = \<lparr>width = 480, height = 640\<rparr>,
            level = fst (Level_constructor (\<lambda>n. 1 / 2) \<lparr>width = 480, height = 640\<rparr> 0),
            capy = \<lparr>dimensionsC = \<lparr>width = 480, height = 640\<rparr>, capy_x = 160, capy_y = 640, vel = 12,
                     capyCounter = 0\<rparr>,
            score = 7, running = True, backgroundRunning = True, alerts = []\<rparr> 3
          = Some (Inr (g', 6))
      \<and> score g' = 0 \<and> running g' = False \<and> length (pipes (level g')) = 3
      \<and> alerts g' = [7]"
proof -
  let ?L = "fst (Level_constructor (\<lambda>n. 1 / 2) \<lparr>width = 480, height = 640\<rparr> 0)"
  let ?G = "\<lparr>dimensionsG = \<lparr>width = 480, height = 640\<rparr>, level = ?L,
             capy = \<lparr>dimensionsC = \<lparr>width = 480, height = 640\<rparr>, capy_x = 160, capy_y = 640, vel = 12,
                      capyCounter = 0\<rparr>,
             score = 7, running = True, backgroundRunning = True, alerts = []\<rparr>"
  have a: "0 \<le> width (dimensionsG ?G)" by simp
  have b: "66 \<le> height (dimensionsG ?G)" by simp
  have l: "length (pipes ?L) = 3"
    by (simp add: constructor_pipes)
  have c: "Level_animate (\<lambda>n. 1 / 2) (level ?G) 3 = Inr (?L\<lparr>pipes := map shiftPipe (pipes ?L)\<rparr>, 3)"
    by (simp add: Level_animate_def movePipes_three [OF l])
       (simp add: constructor_pipes randomPipe_def Let_def Math_random_def shiftPipe_def CONSTANTS_defs)
  have d: "fst (gameOver (?G\<lparr>level := ?L\<lparr>pipes := map shiftPipe (pipes ?L)\<rparr>\<rparr>))"
    by (simp add: gameOver_def collidesWith_eq outOfBounds_def CAPY_HEIGHT_def)
  from game_over_resets [OF a b c d, of 0] show ?thesis
    by auto
qed

lemma restart_fresh:
  "restart (Suc n) rnd
     \<lparr>dimensionsG = dG, level = lv, capy = cp, score = sc, running = rn,
       backgroundRunning = br, alerts = al\<rparr> k
   = animate n rnd
       \<lparr>dimensionsG = dG,
         level = (if br then fst (Level_constructor rnd dG k)
                  else (fst (Level_constructor rnd dG k))\<lparr>backgroundQueue := [- 1441, 479]\<rparr>),
         capy = (if br then Capy_constructor dG else (Capy_constructor dG)\<lparr>capyCounter := 1\<rparr>),
         score = 0, running = False, backgroundRunning = True, alerts = al\<rparr> (k + 3)"
proof -
  define Lf where "Lf = fst (Level_constructor rnd dG k)"
  have lc: "Level_constructor rnd dG k = (Lf, k + 3)"
    by (simp add: Lf_def Level_constructor_def randomPipe_def Math_random_def Let_def
        makeBackground_def)
  have Lf_bg: "backgroundQueue Lf = [- 1440]" "appendBackground Lf = True"
    by (simp_all add: Lf_def Level_constructor_def randomPipe_def Math_random_def Let_def
        makeBackground_def)
  have bg: "animateBackground Lf = Inr (Lf\<lparr>backgroundQueue := [- 1441, 479]\<rparr>)"
    by (simp add: animateBackground_def moveAnimatedBackground_def Lf_bg makeBackground_def
        BACKGROUND_SPEED_def)
  have dc: "drawCapy (Capy_constructor dG) = Inr ((Capy_constructor dG)\<lparr>capyCounter := 1\<rparr>)"
    by (simp add: drawCapy_def Capy_constructor_def ANIMATED_FLAP_SPEED_def)
  show ?thesis
    unfolding Lf_def [symmetric]
    by (simp add: lc bg dc animateLevelBackground_def del: animate.simps)
qed

lemma low_field_never_returns:
  assumes "height D < 66"
  shows "(\<forall>g k. dimensionsG g = D \<and> length (pipes (level g)) = 3 \<and> outOfBounds (capy g)
             \<longrightarrow> animate n rnd g k = None)
       \<and> (\<forall>g k. dimensionsG g = D \<longrightarrow> restart n rnd g k = None)"
proof (induction n)
  case 0
  show ?case by simp
next
  case (Suc n)
  have A: "animate (Suc n) rnd g k = None"
    if g: "dimensionsG g = D" "length (pipes (level g)) = 3" "outOfBounds (capy g)" for g k
  proof -
    have "\<exists>lvl1 k1. Level_animate rnd (level g) k = Inr (lvl1, k1)"
      by (simp add: Level_animate_def movePipes_three [OF g(2)])
    then obtain lvl1 k1 where mv: "Level_animate rnd (level g) k = Inr (lvl1, k1)"
      by blast
    have go: "gameOver (g\<lparr>level := lvl1\<rparr>) = (True, g\<lparr>level := lvl1\<rparr>)"
      using g(3) by (simp add: gameOver_def collidesWith_eq)
    have "restart n rnd (g\<lparr>level := lvl1, alerts := alerts g @ [score g]\<rparr>) k1 = None"
      using Suc.IH g(1) by simp
    then show ?thesis
      by (subst animate.simps(2)) (simp add: mv go del: animate.simps restart.simps)
  qed
  have R: "restart (Suc n) rnd g k = None" if g: "dimensionsG g = D" for g k
  proof -
    obtain dG lv cp sc rn br al where gr:
      "g = \<lparr>dimensionsG = dG, level = lv, capy = cp, score = sc, running = rn,
             backgroundRunning = br, alerts = al\<rparr>"
      by (cases g)
    have dG: "dG = D" using g by (simp add: gr)
    have oob: "outOfBounds (Capy_constructor D)"
      "outOfBounds ((Capy_constructor D)\<lparr>capyCounter := c\<rparr>)" for c
      using assms by (simp_all add: outOfBounds_def Capy_constructor_def CAPY_HEIGHT_def)
    show ?thesis
      unfolding gr restart_fresh
      by (rule Suc.IH [THEN conjunct1, rule_format])
         (simp add: dG oob constructor_pipes)
  qed
  from A R show ?case by blast
qed

text \<open>
  On a field lower than 66 the frame does not end: the new capy of every restart is out
  of bounds again, and \<^verbatim>\<open>animate()\<close> and \<^verbatim>\<open>restart()\<close> call each other without
  end. So on the field \<open>480 \<times> 60\<close>, from a state with score 7 whose capy is out of
  bounds once the pipes have moved, the frame returns with no amount of fuel.
\<close>

theorem game_over_resets_counterexample:
  "Level_animate (\<lambda>n. 1 / 2)
     (fst (Level_constructor (\<lambda>n. 1 / 2) \<lparr>width = 480, height = 60\<rparr> 0)) 3
   = Inr ((fst (Level_constructor (\<lambda>n. 1 / 2) \<lparr>width = 480, height = 60\<rparr> 0))
            \<lparr>pipes := map shiftPipe
               (pipes (fst (Level_constructor (\<lambda>n. 1 / 2) \<lparr>width = 480, height = 60\<rparr> 0)))\<rparr>, 3)
   \<and> fst (gameOver
       \<lparr>dimensionsG = \<lparr>width = 480, height = 60\<rparr>,
         level = (fst (Level_constructor (\<lambda>n. 1 / 2) \<lparr>width = 480, height = 60\<rparr> 0))
            \<lparr>pipes := map shiftPipe
               (pipes (fst (Level_constructor (\<lambda>n. 1 / 2) \<lparr>width = 480, height = 60\<rparr> 0)))\<rparr>,
         capy = Capy_constructor \<lparr>width = 480, height = 60\<rparr>,
         score = 7, running = True, backgroundRunning = True, alerts = []\<rparr>)
   \<and> (\<forall>n. animate n (\<lambda>n. 1 / 2)
         \<lparr>dimensionsG = \<lparr>width = 480, height = 60\<rparr>,
           level = fst (Level_constructor (\<lambda>n. 1 / 2) \<lparr>width = 480, height = 60\<rparr> 0),
           capy = Capy_constructor \<lparr>width = 480, height = 60\<rparr>,
           score = 7, running = True, backgroundRunning = True, alerts = []\<rparr> 3 = None)"
proof (intro conjI allI)
  have l: "length (pipes (fst (Level_constructor (\<lambda>n. 1 / 2) \<lparr>width = 480, height = 60\<rparr> 0))) = 3"
    by (simp add: constructor_pipes)
  show "Level_animate (\<lambda>n. 1 / 2)
     (fst (Level_constructor (\<lambda>n. 1 / 2) \<lparr>width = 480, height = 60\<rparr> 0)) 3
   = Inr ((fst (Level_constructor (\<lambda>n. 1 / 2) \<lparr>width = 480, height = 60\<rparr> 0))
            \<lparr>pipes := map shiftPipe
               (pipes (fst (Level_constructor (\<lambda>n. 1 / 2) \<lparr>width = 480, height = 60\<rparr> 0)))\<rparr>, 3)"
    by (simp add: Level_animate_def movePipes_three [OF l])
       (simp add: constructor_pipes randomPipe_def Let_def Math_random_def shiftPipe_def CONSTANTS_defs)
next
  show "fst (gameOver
       \<lparr>dimensionsG = \<lparr>width = 480, height = 60\<rparr>,
         level = (fst (Level_constructor (\<lambda>n. 1 / 2) \<lparr>width = 480, height = 60\<rparr> 0))
            \<lparr>pipes := map shiftPipe
               (pipes (fst (Level_constructor (\<lambda>n. 1 / 2) \<lparr>width = 480, height = 60\<rparr> 0)))\<rparr>,
         capy = Capy_constructor \<lparr>width = 480, height = 60\<rparr>,
         score = 7, running = True, backgroundRunning = True, alerts = []\<rparr>)"
    by (simp add: gameOver_def collidesWith_eq outOfBounds_def Capy_constructor_def CAPY_HEIGHT_def)
next
  fix n
  have h: "height \<lparr>width = 480, height = 60\<rparr> < 66" by simp
  show "animate n (\<lambda>n. 1 / 2)
         \<lparr>dimensionsG = \<lparr>width = 480, height = 60\<rparr>,
           level = fst (Level_constructor (\<lambda>n. 1 / 2) \<lparr>width = 480, height = 60\<rparr> 0),
           capy = Capy_constructor \<lparr>width = 480, height = 60\<rparr>,
           score = 7, running = True, backgroundRunning = True, alerts = []\<rparr> 3 = None"
    by (rule low_field_never_returns [OF h, THEN conjunct1, rule_format])
       (simp add: constructor_pipes outOfBounds_def Capy_constructor_def CAPY_HEIGHT_def)
qed

end
